theory Spec2Isabelle
  imports Main "HOL-Library.Sublist"
begin

section \<open>Strings and paths of the Go standard library\<close>

text \<open>
  The unpacker is a Go program for a system whose path separator is \<open>/\<close>.  A Go
  \<open>string\<close> is a byte sequence, here a \<open>char list\<close>.  The functions of
  \<open>strings\<close> and \<open>path/filepath\<close> that the program calls are written after the
  library's own loops.
\<close>

type_synonym bytes = string

definition sep :: char where
  "sep = CHR ''/''"

text \<open>\<open>strings.SplitN(s, "/", 2)\<close>: at most two pieces, cut at the first separator.\<close>

definition SplitN2 :: "string \<Rightarrow> string list" where
  "SplitN2 s =
     (if sep \<in> set s
      then [takeWhile (\<lambda>c. c \<noteq> sep) s, tl (dropWhile (\<lambda>c. c \<noteq> sep) s)]
      else [s])"

text \<open>\<open>strings.TrimSuffix\<close>.\<close>

definition TrimSuffix :: "string \<Rightarrow> string \<Rightarrow> string" where
  "TrimSuffix s suf =
     (if length suf \<le> length s \<and> drop (length s - length suf) s = suf
      then take (length s - length suf) s else s)"

text \<open>
  \<open>filepath.Ext\<close> scans from the last byte towards the front, stops at a separator
  and returns the text from the first dot it meets.
\<close>

fun ext_scan :: "string \<Rightarrow> string \<Rightarrow> string" where
  "ext_scan [] acc = []"
| "ext_scan (c # cs) acc =
     (if c = sep then []
      else if c = CHR ''.'' then c # acc
      else ext_scan cs (c # acc))"

definition filepath_Ext :: "string \<Rightarrow> string" where
  "filepath_Ext p = ext_scan (rev p) []"

text \<open>
  \<open>filepath.Base\<close>: the empty path gives \<open>.\<close>; trailing separators are dropped; the
  text after the last separator is kept; a path of separators only gives \<open>/\<close>.
\<close>

definition filepath_Base :: "string \<Rightarrow> string" where
  "filepath_Base p =
     (if p = [] then ''.''
      else let q = rev (dropWhile (\<lambda>c. c = sep) (rev p));
               b = rev (takeWhile (\<lambda>c. c \<noteq> sep) (rev q))
           in if b = [] then [sep] else b)"

text \<open>
  \<open>strings.Split(s, "/")\<close>: the pieces between separators, never an empty list.
  The scan keeps the bytes of the piece it is reading, last byte first.
\<close>

fun split_from :: "string \<Rightarrow> string \<Rightarrow> string list" where
  "split_from cur [] = [rev cur]"
| "split_from cur (c # cs) =
     (if c = sep then rev cur # split_from [] cs else split_from (c # cur) cs)"

definition split_sep :: "string \<Rightarrow> string list" where
  "split_sep s = split_from [] s"

text \<open>\<open>strings.Join(elems, "/")\<close>.\<close>

fun join_sep :: "string list \<Rightarrow> string" where
  "join_sep [] = []"
| "join_sep [x] = x"
| "join_sep (x # y # ys) = x @ sep # join_sep (y # ys)"

text \<open>
  A path as the kernel resolves it (and as \<open>filepath.Clean\<close> computes it lexically):
  whether it starts at the root, and its elements.  Empty elements and \<open>.\<close> are
  dropped; \<open>..\<close> removes the element before it, is dropped at the root, and is kept
  at the front of a relative path.
\<close>

type_synonym path = "bool \<times> string list"

definition push_elem :: "bool \<Rightarrow> string list \<Rightarrow> string \<Rightarrow> string list" where
  "push_elem rooted st c =
     (if c = ''..''
      then (if st \<noteq> [] \<and> last st \<noteq> ''..'' then butlast st
            else if rooted then st else st @ [c])
      else st @ [c])"

definition is_rooted :: "string \<Rightarrow> bool" where
  "is_rooted p = (p \<noteq> [] \<and> hd p = sep)"

definition elems :: "string \<Rightarrow> string list" where
  "elems p = filter (\<lambda>c. c \<noteq> [] \<and> c \<noteq> ''.'') (split_sep p)"

definition parse :: "string \<Rightarrow> path" where
  "parse p = (is_rooted p, foldl (push_elem (is_rooted p)) [] (elems p))"

definition render :: "path \<Rightarrow> string" where
  "render q =
     (if snd q = [] then (if fst q then [sep] else ''.'')
      else (if fst q then [sep] else []) @ join_sep (snd q))"

definition filepath_Clean :: "string \<Rightarrow> string" where
  "filepath_Clean p = render (parse p)"

text \<open>
  \<open>filepath.Join\<close>: from the first non-empty element on, the elements are joined with
  the separator and the result is cleaned; with no non-empty element the result is
  the empty string.
\<close>

definition filepath_Join :: "string list \<Rightarrow> string" where
  "filepath_Join es =
     (case dropWhile (\<lambda>e. e = []) es of
        [] \<Rightarrow> []
      | r # rs \<Rightarrow> filepath_Clean (join_sep (r # rs)))"

text \<open>\<open>filepath.Dir\<close>: the path up to its last separator, cleaned.\<close>

definition filepath_Dir :: "string \<Rightarrow> string" where
  "filepath_Dir p = filepath_Clean (rev (dropWhile (\<lambda>c. c \<noteq> sep) (rev p)))"


section \<open>The file system and the operating system calls\<close>

text \<open>
  A file tree maps a resolved path to a regular file with its bytes or to a
  directory.  The root, the working directory and the directories above the
  working directory (\<open>..\<close>, \<open>../..\<close>) always exist.  A path name denotes the node
  of its resolved path: there are no symbolic links, and a relative and a rooted
  path never denote the same node.
\<close>

datatype node = File bytes | Dir

type_synonym filesys = "path \<Rightarrow> node option"

datatype os_error = ENOENT | ENOTDIR | EISDIR | EEXIST | EINVAL | EREFUSED

text \<open>
  The calls that can fail for reasons outside the file tree (another volume,
  permissions, the device): the environment says which ones it refuses.  Making
  a directory, creating a file and writing to it fail only for reasons of the
  file tree.
\<close>

datatype syscall = Sys_rename path path | Sys_remove_all path | Sys_sync path

definition lookup :: "filesys \<Rightarrow> path \<Rightarrow> node option" where
  "lookup fs q = (if list_all (\<lambda>c. c = ''..'') (snd q) then Some Dir else fs q)"

definition parent :: "path \<Rightarrow> path" where
  "parent q = (fst q, butlast (snd q))"

definition under :: "path \<Rightarrow> path \<Rightarrow> bool" where
  "under d q = (fst d = fst q \<and> prefix (snd d) (snd q))"

text \<open>
  \<open>os.MkdirAll\<close>: every missing directory on the way is made; a regular file on the
  way is an error, and then nothing is made.
\<close>

fun mkdir_chain :: "bool \<Rightarrow> string list \<Rightarrow> string list \<Rightarrow> filesys \<Rightarrow> os_error + filesys" where
  "mkdir_chain r pre [] fs = Inr fs"
| "mkdir_chain r pre (c # cs) fs =
     (case lookup fs (r, pre @ [c]) of
        Some (File b) \<Rightarrow> Inl ENOTDIR
      | Some Dir \<Rightarrow> mkdir_chain r (pre @ [c]) cs fs
      | None \<Rightarrow> mkdir_chain r (pre @ [c]) cs (fs((r, pre @ [c]) \<mapsto> Dir)))"

definition os_MkdirAll :: "string \<Rightarrow> filesys \<Rightarrow> os_error + filesys" where
  "os_MkdirAll name fs =
     (if name = [] then Inl ENOENT
      else case parse name of (r, cs) \<Rightarrow> mkdir_chain r [] cs fs)"

text \<open>\<open>os.Create\<close>: the file is created or truncated; its directory must exist.\<close>

definition os_Create :: "string \<Rightarrow> filesys \<Rightarrow> os_error + filesys" where
  "os_Create name fs =
     (if name = [] then Inl ENOENT
      else case lookup fs (parse name) of
             Some Dir \<Rightarrow> Inl EISDIR
           | _ \<Rightarrow>
             (case lookup fs (parent (parse name)) of
                Some Dir \<Rightarrow> Inr (fs(parse name \<mapsto> File []))
              | Some (File b) \<Rightarrow> Inl ENOTDIR
              | None \<Rightarrow> Inl ENOENT))"

text \<open>Writing through an open file appends to what the file holds.\<close>

definition write_bytes :: "string \<Rightarrow> bytes \<Rightarrow> filesys \<Rightarrow> filesys" where
  "write_bytes name data fs =
     (case fs (parse name) of
        Some (File b) \<Rightarrow> fs(parse name \<mapsto> File (b @ data))
      | _ \<Rightarrow> fs)"

text \<open>\<open>os.Open\<close> for reading: the path must exist (a directory can be opened).\<close>

definition os_Open :: "string \<Rightarrow> filesys \<Rightarrow> os_error + unit" where
  "os_Open name fs =
     (if name = [] then Inl ENOENT
      else case lookup fs (parse name) of None \<Rightarrow> Inl ENOENT | Some n \<Rightarrow> Inr ())"

text \<open>
  \<open>io.Copy(out, in)\<close> between two open files: the bytes the source holds when the
  copy runs are written to the destination; reading a directory fails.
\<close>

definition copy_bytes :: "string \<Rightarrow> string \<Rightarrow> filesys \<Rightarrow> os_error + filesys" where
  "copy_bytes source destination fs =
     (case lookup fs (parse source) of
        Some (File b) \<Rightarrow> Inr (write_bytes destination b fs)
      | Some Dir \<Rightarrow> Inl EISDIR
      | None \<Rightarrow> Inl ENOENT)"

text \<open>
  \<open>os.Rename\<close>.  Go refuses an existing directory as the new name (unless both
  names are one directory spelled differently).  The system call then fails when
  the environment refuses it or the old name is missing, does nothing when both
  names are one node, replaces a regular file, and moves a directory with all
  below it to a new name that does not exist.
\<close>

definition move_tree :: "path \<Rightarrow> path \<Rightarrow> filesys \<Rightarrow> filesys" where
  "move_tree s d fs =
     (\<lambda>q. if under d q then fs (fst s, snd s @ drop (length (snd d)) (snd q))
          else if under s q then None
          else fs q)"

definition os_Rename :: "(syscall \<Rightarrow> bool) \<Rightarrow> string \<Rightarrow> string \<Rightarrow> filesys \<Rightarrow> os_error + filesys" where
  "os_Rename refused old new fs =
     (if old = [] \<or> new = [] then Inl ENOENT
      else if lookup fs (parse new) = Some Dir \<and> (old = new \<or> parse old \<noteq> parse new)
      then (case lookup fs (parse old) of None \<Rightarrow> Inl ENOENT | Some n \<Rightarrow> Inl EEXIST)
      else if refused (Sys_rename (parse old) (parse new)) then Inl EREFUSED
      else case lookup fs (parse old) of
             None \<Rightarrow> Inl ENOENT
           | Some n \<Rightarrow>
             if list_all (\<lambda>c. c = ''..'') (snd (parse old)) then Inl EINVAL
             else if parse old = parse new then Inr fs
             else (case lookup fs (parent (parse new)) of
                     None \<Rightarrow> Inl ENOENT
                   | Some (File b) \<Rightarrow> Inl ENOTDIR
                   | Some Dir \<Rightarrow>
                     (case n of
                        File b \<Rightarrow> Inr ((fs(parse old := None))(parse new \<mapsto> File b))
                      | Dir \<Rightarrow>
                        if lookup fs (parse new) \<noteq> None then Inl ENOTDIR
                        else if under (parse old) (parse new) then Inl EINVAL
                        else Inr (move_tree (parse old) (parse new) fs))))"

text \<open>
  \<open>os.RemoveAll\<close>: the path and all below it are removed; a missing path is no
  error.  When the environment refuses, nothing is removed.
\<close>

definition os_RemoveAll :: "(syscall \<Rightarrow> bool) \<Rightarrow> string \<Rightarrow> filesys \<Rightarrow> os_error + filesys" where
  "os_RemoveAll refused name fs =
     (if name = [] then Inr fs
      else if list_all (\<lambda>c. c = ''..'') (snd (parse name)) then Inl EINVAL
      else if refused (Sys_remove_all (parse name)) then Inl EREFUSED
      else Inr (\<lambda>q. if under (parse name) q then None else fs q))"

text \<open>
  \<open>os.MkdirTemp(dir, prefix + "*")\<close>: a new directory \<open>dir/prefix<digits>\<close>, the
  digits chosen at random by the library; \<open>rnd\<close> is the choice it ends with.  An
  empty \<open>dir\<close> stands for the temporary directory of the system.
\<close>

definition os_MkdirTemp :: "string \<Rightarrow> string \<Rightarrow> string \<Rightarrow> filesys \<Rightarrow> os_error + (string \<times> filesys)" where
  "os_MkdirTemp dir pre rnd fs =
     (let d = (if dir = [] then ''/tmp'' else dir);
          name = (if last d = sep then d @ pre @ rnd else d @ sep # pre @ rnd)
      in case lookup fs (parse name) of
           Some n \<Rightarrow> Inl EEXIST
         | None \<Rightarrow>
           (case lookup fs (parent (parse name)) of
              Some Dir \<Rightarrow> Inr (name, fs(parse name \<mapsto> Dir))
            | Some (File b) \<Rightarrow> Inl ENOTDIR
            | None \<Rightarrow> Inl ENOENT))"


section \<open>The unpacker\<close>

text \<open>
  The program of the archive-order variant: \<open>extractTarGz\<close> returns the list of
  assets, \<open>moveFile\<close> relocates a file, \<open>reconstructStructure\<close> moves every asset
  to its place, \<open>main\<close> runs both.
\<close>

record UnityAsset =
  AssetPath :: string
  MetaPath :: string
  PathName :: string

definition empty_asset :: UnityAsset where
  "empty_asset = \<lparr>AssetPath = [], MetaPath = [], PathName = []\<rparr>"

text \<open>
  What the gzip and tar readers deliver for the source file.  \<open>gzip.NewReader\<close>
  reads the header only; the entries follow in archive order, each with its name
  and the bytes its body yields (\<open>Intact\<close> is false when reading the body ends in
  an error after these bytes); after the last entry \<open>Next\<close> returns \<open>io.EOF\<close> or an
  error of the tar structure or of the compressed stream.  The program never looks
  at the type flag of an entry.
\<close>

record tar_entry =
  Name :: string
  Body :: bytes
  Intact :: bool

datatype stream_end = End_of_archive | Tar_corrupt | Gzip_corrupt

record archive =
  header_ok :: bool
  entries :: "tar_entry list"
  ending :: stream_end

datatype error =
    E_open_file
  | E_gzip_reader
  | E_read_tar
  | E_create_directory string os_error
  | E_create_file string os_error
  | E_extract string
  | E_read_pathname
  | E_open_source string os_error
  | E_create_destination string os_error
  | E_copy_data string string os_error
  | E_sync string
  | E_move_asset error
  | E_move_meta error

datatype message =
    Info_extracting string
  | Info_extracted nat
  | Info_reconstructing string
  | Warn_skipping_incomplete
  | Info_moving string
  | Info_no_meta string
  | Info_complete
  | Usage
  | Info_input string
  | Info_output string
  | Error_output_directory os_error
  | Error_temp_root os_error
  | Error_temp_directory os_error
  | Warn_delete_temp os_error
  | Error_extraction error
  | Error_reconstruction error
  | Success string string

text \<open>
  The world the program runs in: the file tree, what was printed, the files whose
  \<open>Sync\<close> has returned, and the calls the environment refuses.
\<close>

record world =
  files :: filesys
  stdout :: "message list"
  synced :: "path list"
  refused :: "syscall \<Rightarrow> bool"

definition say :: "message \<Rightarrow> world \<Rightarrow> world" where
  "say m w = w\<lparr>stdout := stdout w @ [m]\<rparr>"

subsection \<open>extractTarGz\<close>

text \<open>
  One round of the loop, for the entry \<open>Next\<close> returned: the name is cut at its
  first separator; \<open>asset\<close> and \<open>asset.meta\<close> are written below the temporary
  directory and noted in the current asset; \<open>pathname\<close> completes the current
  asset, appends it and starts an empty one; everything else is passed over.
\<close>

definition extract_entry ::
  "string \<Rightarrow> tar_entry \<Rightarrow> UnityAsset \<times> UnityAsset list \<Rightarrow> filesys
     \<Rightarrow> (error + UnityAsset \<times> UnityAsset list) \<times> filesys" where
  "extract_entry tempDir e st fs =
     (case SplitN2 (Name e) of
        [dirName, fileName] \<Rightarrow>
          if fileName = ''asset'' \<or> fileName = ''asset.meta'' then
            (let destPath = filepath_Join [tempDir, dirName, fileName] in
             case os_MkdirAll (filepath_Dir destPath) fs of
               Inl x \<Rightarrow> (Inl (E_create_directory destPath x), fs)
             | Inr fs1 \<Rightarrow>
               (case os_Create destPath fs1 of
                  Inl x \<Rightarrow> (Inl (E_create_file destPath x), fs1)
                | Inr fs2 \<Rightarrow>
                  if \<not> Intact e then (Inl (E_extract destPath), write_bytes destPath (Body e) fs2)
                  else if fileName = ''asset''
                  then (Inr ((fst st)\<lparr>AssetPath := destPath\<rparr>, snd st),
                        write_bytes destPath (Body e) fs2)
                  else (Inr ((fst st)\<lparr>MetaPath := destPath\<rparr>, snd st),
                        write_bytes destPath (Body e) fs2)))
          else if fileName = ''pathname'' then
            (if \<not> Intact e then (Inl E_read_pathname, fs)
             else (Inr (empty_asset, snd st @ [(fst st)\<lparr>PathName := Body e\<rparr>]), fs))
          else (Inr st, fs)
      | _ \<Rightarrow> (Inr st, fs))"

fun extract_loop ::
  "string \<Rightarrow> tar_entry list \<Rightarrow> stream_end \<Rightarrow> UnityAsset \<times> UnityAsset list \<Rightarrow> filesys
     \<Rightarrow> (error + UnityAsset list) \<times> filesys" where
  "extract_loop tempDir [] fin st fs =
     (if fin = End_of_archive then (Inr (snd st), fs) else (Inl E_read_tar, fs))"
| "extract_loop tempDir (e # es) fin st fs =
     (case extract_entry tempDir e st fs of
        (Inl err, fs') \<Rightarrow> (Inl err, fs')
      | (Inr st', fs') \<Rightarrow> extract_loop tempDir es fin st' fs')"

definition extractTarGz ::
  "string \<Rightarrow> string \<Rightarrow> archive option \<Rightarrow> world \<Rightarrow> (error + UnityAsset list) \<times> world" where
  "extractTarGz srcFile tempDir src w =
     (case src of
        None \<Rightarrow> (Inl E_open_file, say (Info_extracting srcFile) w)
      | Some a \<Rightarrow>
        if \<not> header_ok a then (Inl E_gzip_reader, say (Info_extracting srcFile) w)
        else (case extract_loop tempDir (entries a) (ending a) (empty_asset, [])
                     (files (say (Info_extracting srcFile) w)) of
                (Inl err, fs) \<Rightarrow> (Inl err, (say (Info_extracting srcFile) w)\<lparr>files := fs\<rparr>)
              | (Inr assets, fs) \<Rightarrow>
                (Inr assets,
                 say (Info_extracted (length assets))
                   ((say (Info_extracting srcFile) w)\<lparr>files := fs\<rparr>))))"

subsection \<open>moveFile and copyFile\<close>

definition moveFile :: "string \<Rightarrow> string \<Rightarrow> world \<Rightarrow> (error + unit) \<times> world" where
  "moveFile source destination w =
     (case os_MkdirAll (filepath_Dir destination) (files w) of
        Inl x \<Rightarrow> (Inl (E_create_directory (filepath_Dir destination) x), w)
      | Inr fs1 \<Rightarrow>
        (case os_Rename (refused w) source destination fs1 of
           Inr fs2 \<Rightarrow> (Inr (), w\<lparr>files := fs2\<rparr>)
         | Inl r \<Rightarrow>
           (case os_Open source fs1 of
              Inl x \<Rightarrow> (Inl (E_open_source source x), w\<lparr>files := fs1\<rparr>)
            | Inr u \<Rightarrow>
              (case os_Create destination fs1 of
                 Inl x \<Rightarrow> (Inl (E_create_destination destination x), w\<lparr>files := fs1\<rparr>)
               | Inr fs2 \<Rightarrow>
                 (case copy_bytes source destination fs2 of
                    Inl x \<Rightarrow> (Inl (E_copy_data source destination x), w\<lparr>files := fs2\<rparr>)
                  | Inr fs3 \<Rightarrow> (Inr (), w\<lparr>files := fs3\<rparr>))))))"

text \<open>
  \<open>copyFile\<close> of the directory-listing variant of the program: no rename, and the
  destination is synced before the function returns (\<open>Sync\<close> fails when the
  environment refuses it).
\<close>

definition copyFile :: "string \<Rightarrow> string \<Rightarrow> world \<Rightarrow> (error + unit) \<times> world" where
  "copyFile source destination w =
     (case os_Open source (files w) of
        Inl x \<Rightarrow> (Inl (E_open_source source x), w)
      | Inr u \<Rightarrow>
        (case os_Create destination (files w) of
           Inl x \<Rightarrow> (Inl (E_create_destination destination x), w)
         | Inr fs2 \<Rightarrow>
           (case copy_bytes source destination fs2 of
              Inl x \<Rightarrow> (Inl (E_copy_data source destination x), w\<lparr>files := fs2\<rparr>)
            | Inr fs3 \<Rightarrow>
              if refused w (Sys_sync (parse destination))
              then (Inl (E_sync destination), w\<lparr>files := fs3\<rparr>)
              else (Inr (), w\<lparr>files := fs3, synced := parse destination # synced w\<rparr>))))"

subsection \<open>reconstructStructure\<close>

fun reconstruct_loop :: "UnityAsset list \<Rightarrow> string \<Rightarrow> world \<Rightarrow> (error + unit) \<times> world" where
  "reconstruct_loop [] targetDir w = (Inr (), w)"
| "reconstruct_loop (asset # rest) targetDir w =
     (if PathName asset = [] \<or> AssetPath asset = []
      then reconstruct_loop rest targetDir (say Warn_skipping_incomplete w)
      else
        (case moveFile (AssetPath asset) (filepath_Join [targetDir, PathName asset])
                (say (Info_moving (PathName asset)) w) of
           (Inl err, w1) \<Rightarrow> (Inl (E_move_asset err), w1)
         | (Inr u, w1) \<Rightarrow>
           if MetaPath asset \<noteq> [] then
             (case moveFile (MetaPath asset)
                     (filepath_Join [targetDir, PathName asset] @ ''.meta'') w1 of
                (Inl err, w2) \<Rightarrow> (Inl (E_move_meta err), w2)
              | (Inr u, w2) \<Rightarrow> reconstruct_loop rest targetDir w2)
           else reconstruct_loop rest targetDir (say (Info_no_meta (PathName asset)) w1)))"

definition reconstructStructure :: "UnityAsset list \<Rightarrow> string \<Rightarrow> world \<Rightarrow> (error + unit) \<times> world" where
  "reconstructStructure assets targetDir w =
     (case reconstruct_loop assets targetDir (say (Info_reconstructing targetDir) w) of
        (Inl err, w1) \<Rightarrow> (Inl err, w1)
      | (Inr u, w1) \<Rightarrow> (Inr (), say Info_complete w1))"

subsection \<open>main\<close>

text \<open>
  \<open>args\<close> is \<open>os.Args\<close>, \<open>src\<close> what opening and decoding the input file gives,
  \<open>rnd\<close> the digits \<open>os.MkdirTemp\<close> chooses.  The result is the exit status and the
  world the process leaves.  \<open>os.Exit\<close> ends the process at once: the deferred
  removal of the temporary directory runs only when \<open>main\<close> returns.
\<close>

definition output_dir :: "string list \<Rightarrow> string" where
  "output_dir args =
     (if length args < 3
      then TrimSuffix (filepath_Base (args ! 1)) (filepath_Ext (filepath_Base (args ! 1)))
      else args ! 2)"

definition remove_temp :: "string \<Rightarrow> world \<Rightarrow> world" where
  "remove_temp tempParent w =
     (case os_RemoveAll (refused w) tempParent (files w) of
        Inl x \<Rightarrow> say (Warn_delete_temp x) w
      | Inr fs \<Rightarrow> w\<lparr>files := fs\<rparr>)"

definition main :: "string list \<Rightarrow> archive option \<Rightarrow> string \<Rightarrow> world \<Rightarrow> nat \<times> world" where
  "main args src rnd w =
     (if length args < 2 then (1, say Usage w)
      else
        (let inputFile = args ! 1;
             outputDir = output_dir args;
             w1 = say (Info_output outputDir) (say (Info_input inputFile) w)
         in case os_MkdirAll outputDir (files w1) of
              Inl x \<Rightarrow> (1, say (Error_output_directory x) w1)
            | Inr fs2 \<Rightarrow>
              (let tempParent = filepath_Join [outputDir, ''.tmp_unpack''] in
               case os_MkdirAll tempParent fs2 of
                 Inl x \<Rightarrow> (1, say (Error_temp_root x) (w1\<lparr>files := fs2\<rparr>))
               | Inr fs3 \<Rightarrow>
                 (case os_MkdirTemp tempParent ''unpack-unitypackage-'' rnd fs3 of
                    Inl x \<Rightarrow> (1, say (Error_temp_directory x) (w1\<lparr>files := fs3\<rparr>))
                  | Inr (tempDir, fs4) \<Rightarrow>
                    (case extractTarGz inputFile tempDir src (w1\<lparr>files := fs4\<rparr>) of
                       (Inl err, w5) \<Rightarrow> (1, say (Error_extraction err) w5)
                     | (Inr assets, w5) \<Rightarrow>
                       (case reconstructStructure assets outputDir w5 of
                          (Inl err, w6) \<Rightarrow> (1, say (Error_reconstruction err) w6)
                        | (Inr u, w6) \<Rightarrow>
                          (0, remove_temp tempParent (say (Success inputFile outputDir) w6))))))))"


section \<open>Vocabulary of the properties\<close>

text \<open>
  The spec's words for the default output directory: the base name of the input
  file with its final extension (the text from the last dot) stripped.
\<close>

definition strip_final_extension :: "string \<Rightarrow> string" where
  "strip_final_extension b =
     (if CHR ''.'' \<in> set b then rev (tl (dropWhile (\<lambda>c. c \<noteq> CHR ''.'') (rev b))) else b)"

text \<open>
  A \<open>pathname\<close> member entry: the name splits into two parts at its first
  separator and the second part is \<open>pathname\<close>.
\<close>

definition pathname_entry :: "tar_entry \<Rightarrow> bool" where
  "pathname_entry e = (case SplitN2 (Name e) of [d, f] \<Rightarrow> f = ''pathname'' | _ \<Rightarrow> False)"

text \<open>
  Worlds and archives of the scenarios.  The process starts in an empty working
  directory; \<open>same_volume\<close> refuses no call, \<open>other_volume\<close> refuses every rename
  (the temporary directory and the destination are on different volumes).
\<close>

definition start_world :: "(syscall \<Rightarrow> bool) \<Rightarrow> world" where
  "start_world r = \<lparr>files = Map.empty, stdout = [], synced = [], refused = r\<rparr>"

definition same_volume :: "syscall \<Rightarrow> bool" where
  "same_volume c = False"

definition other_volume :: "syscall \<Rightarrow> bool" where
  "other_volume c =
     (case c of Sys_rename s d \<Rightarrow> True | Sys_remove_all q \<Rightarrow> False | Sys_sync q \<Rightarrow> False)"

definition wood_bytes :: bytes where
  "wood_bytes =
     [CHR 0x00, CHR 0x01, CHR 0x02, CHR 0x03, CHR 0x04, CHR 0x05, CHR 0x06, CHR 0x07,
      CHR 0x08, CHR 0x09]"

definition wood_archive :: archive where
  "wood_archive = \<lparr>header_ok = True,
     entries = [\<lparr>Name = ''abc123/asset'', Body = wood_bytes, Intact = True\<rparr>,
                \<lparr>Name = ''abc123/pathname'', Body = ''Materials/Wood.mat'', Intact = True\<rparr>],
     ending = End_of_archive\<rparr>"

text \<open>
  The environment that refuses renames, removals, both or neither; the run of
  the Wood scenario on an archive, started in an empty working directory; the
  Wood archive among other entries; the Wood archive with its \<open>pathname\<close> entry
  first; a working directory in which \<open>out\<close> is a regular file.
\<close>

definition environment :: "bool \<Rightarrow> bool \<Rightarrow> syscall \<Rightarrow> bool" where
  "environment no_rename no_remove c =
     (case c of
        Sys_rename s d \<Rightarrow> no_rename
      | Sys_remove_all q \<Rightarrow> no_remove
      | Sys_sync q \<Rightarrow> False)"

definition wood_run :: "archive \<Rightarrow> bool \<Rightarrow> bool \<Rightarrow> nat \<times> world" where
  "wood_run a no_rename no_remove =
     main [''unpack'', ''Wood.unitypackage'', ''out/''] (Some a) ''4242''
       (start_world (environment no_rename no_remove))"

definition wood_among_others :: archive where
  "wood_among_others = \<lparr>header_ok = True,
     entries = [\<lparr>Name = ''abc123/'', Body = [], Intact = True\<rparr>,
                \<lparr>Name = ''abc123/asset'', Body = wood_bytes, Intact = True\<rparr>,
                \<lparr>Name = ''abc123/preview.png'', Body = ''pixels'', Intact = True\<rparr>,
                \<lparr>Name = ''abc123/pathname'', Body = ''Materials/Wood.mat'', Intact = True\<rparr>,
                \<lparr>Name = ''README.txt'', Body = ''read me'', Intact = True\<rparr>],
     ending = End_of_archive\<rparr>"

definition wood_pathname_first :: archive where
  "wood_pathname_first = \<lparr>header_ok = True,
     entries = [\<lparr>Name = ''abc123/pathname'', Body = ''Materials/Wood.mat'', Intact = True\<rparr>,
                \<lparr>Name = ''abc123/asset'', Body = wood_bytes, Intact = True\<rparr>],
     ending = End_of_archive\<rparr>"

definition out_is_a_file :: world where
  "out_is_a_file = \<lparr>files = Map.empty((False, [''out'']) \<mapsto> File ''x''), stdout = [],
     synced = [], refused = same_volume\<rparr>"

definition escaping_archive :: archive where
  "escaping_archive = \<lparr>header_ok = True,
     entries = [\<lparr>Name = ''g1/asset'', Body = ''payload'', Intact = True\<rparr>,
                \<lparr>Name = ''g1/pathname'', Body = ''../../escaped.txt'', Intact = True\<rparr>],
     ending = End_of_archive\<rparr>"

definition escaping_run :: "nat \<times> world" where
  "escaping_run =
     main [''unpack'', ''evil.unitypackage'', ''out''] (Some escaping_archive) ''4242''
       (start_world same_volume)"

text \<open>A source whose gzip header is invalid, whatever follows it.\<close>

definition bad_header :: archive where
  "bad_header = \<lparr>header_ok = False,
     entries = [\<lparr>Name = ''g1/asset'', Body = ''payload'', Intact = True\<rparr>],
     ending = End_of_archive\<rparr>"

definition bad_header_run :: "nat \<times> world" where
  "bad_header_run =
     main [''unpack'', ''bad.unitypackage''] (Some bad_header) ''4242'' (start_world same_volume)"


text \<open>
  Between two file trees, nothing changed but directories that were made: every
  path holds what it held, or held nothing and is now a directory.
\<close>

definition adds_only_dirs :: "filesys \<Rightarrow> filesys \<Rightarrow> bool" where
  "adds_only_dirs fs fs' = (\<forall>q. fs' q = fs q \<or> (fs q = None \<and> fs' q = Some Dir))"

text \<open>
  A valid gzip stream: the header is accepted and the compressed data after it
  is sound to its end.
\<close>

definition valid_gzip :: "archive \<Rightarrow> bool" where
  "valid_gzip a = (header_ok a \<and> ending a \<noteq> Gzip_corrupt)"

text \<open>A source with a valid header whose compressed data breaks after the first entry.\<close>

definition torn_archive :: archive where
  "torn_archive = \<lparr>header_ok = True,
     entries = [\<lparr>Name = ''g1/asset'', Body = ''payload'', Intact = True\<rparr>],
     ending = Gzip_corrupt\<rparr>"

definition torn_run :: "nat \<times> world" where
  "torn_run =
     main [''unpack'', ''torn.unitypackage'', ''out''] (Some torn_archive) ''4242''
       (start_world same_volume)"

text \<open>
  The first path segment and the member name of an entry; a record that holds
  staged files of the segment \<open>d\<close> only.
\<close>

definition segment :: "tar_entry \<Rightarrow> string" where
  "segment e = hd (SplitN2 (Name e))"

definition member_name :: "tar_entry \<Rightarrow> string" where
  "member_name e = (case SplitN2 (Name e) of [d, f] \<Rightarrow> f | _ \<Rightarrow> [])"

definition staged_for :: "string \<Rightarrow> string \<Rightarrow> UnityAsset \<Rightarrow> bool" where
  "staged_for t d r =
     ((AssetPath r = [] \<or> AssetPath r = filepath_Join [t, d, ''asset'']) \<and>
      (MetaPath r = [] \<or> MetaPath r = filepath_Join [t, d, ''asset.meta'']))"

text \<open>
  The records in the words of the amended claim: the entries read since the last
  \<open>pathname\<close> entry form a run; the record a \<open>pathname\<close> entry closes holds, as
  payload and as sidecar, the file staged from the last \<open>asset\<close> and the last
  \<open>asset.meta\<close> entry of the run (nothing when the run has none), and the text of
  the \<open>pathname\<close> entry.
\<close>

definition staged_last :: "string \<Rightarrow> string \<Rightarrow> tar_entry list \<Rightarrow> string" where
  "staged_last t m run =
     (if filter (\<lambda>e. member_name e = m) run = [] then []
      else filepath_Join [t, segment (last (filter (\<lambda>e. member_name e = m) run)), m])"

definition closing_record :: "string \<Rightarrow> tar_entry list \<Rightarrow> tar_entry \<Rightarrow> UnityAsset" where
  "closing_record t run p =
     \<lparr>AssetPath = staged_last t ''asset'' run,
      MetaPath = staged_last t ''asset.meta'' run,
      PathName = Body p\<rparr>"

fun records_by_runs :: "string \<Rightarrow> tar_entry list \<Rightarrow> tar_entry list \<Rightarrow> UnityAsset list" where
  "records_by_runs t run [] = []"
| "records_by_runs t run (e # es) =
     (if member_name e = ''pathname''
      then closing_record t run e # records_by_runs t [] es
      else records_by_runs t (run @ [e]) es)"

text \<open>
  An archive in which every \<open>pathname\<close> entry closes a run of its own segment:
  the \<open>asset\<close> and \<open>asset.meta\<close> entries read since the \<open>pathname\<close> entry before it
  have the first path segment of that \<open>pathname\<close> entry (\<open>run\<close> holds the entries
  read since the last \<open>pathname\<close> entry).
\<close>

fun runs_tied :: "tar_entry list \<Rightarrow> tar_entry list \<Rightarrow> bool" where
  "runs_tied run [] = True"
| "runs_tied run (e # es) =
     (if member_name e = ''pathname''
      then list_all (\<lambda>x. segment x = segment e)
             (filter (\<lambda>x. member_name x = ''asset'' \<or> member_name x = ''asset.meta'') run) \<and>
           runs_tied [] es
      else runs_tied (run @ [e]) es)"

text \<open>A working directory with the single file \<open>a\<close>, on a system that refuses every rename.\<close>

definition one_file :: world where
  "one_file = \<lparr>files = Map.empty((False, [''a'']) \<mapsto> File ''xyz''), stdout = [], synced = [],
     refused = other_volume\<rparr>"


text \<open>An archive whose only \<open>pathname\<close> entry follows an \<open>asset\<close> entry of another segment.\<close>

definition mixed_archive :: archive where
  "mixed_archive = \<lparr>header_ok = True,
     entries = [\<lparr>Name = ''A/asset'', Body = ''payload'', Intact = True\<rparr>,
                \<lparr>Name = ''B/pathname'', Body = ''x.txt'', Intact = True\<rparr>],
     ending = End_of_archive\<rparr>"


text \<open>
  An element that survives cleaning; a plain name (an element other than \<open>..\<close>);
  a list of elements that cleaning leaves as it is: \<open>..\<close> stands only at the front
  of a relative path.
\<close>

definition elem_ok :: "string \<Rightarrow> bool" where
  "elem_ok c = (c \<noteq> [] \<and> sep \<notin> set c \<and> c \<noteq> ''.'')"

definition plain :: "string \<Rightarrow> bool" where
  "plain c = (c \<noteq> [] \<and> sep \<notin> set c \<and> c \<noteq> ''.'' \<and> c \<noteq> ''..'')"

definition settled :: "bool \<Rightarrow> string list \<Rightarrow> bool" where
  "settled r cs =
     (list_all elem_ok cs \<and> ''..'' \<notin> set (dropWhile (\<lambda>c. c = ''..'') cs) \<and>
      (if r then ''..'' \<notin> set cs else True))"


text \<open>
  A group of a well-formed archive: its identifier, the bytes of its \<open>asset\<close>
  entry, the bytes of its \<open>asset.meta\<close> entry when it has one, and the text of its
  \<open>pathname\<close> entry.  Its entries, and the orders they may stand in: the
  \<open>pathname\<close> entry is the last one.
\<close>

record asset_group =
  gid :: string
  payload :: bytes
  sidecar :: "bytes option"
  logical :: string

definition asset_of :: "asset_group \<Rightarrow> tar_entry" where
  "asset_of g = \<lparr>Name = gid g @ ''/asset'', Body = payload g, Intact = True\<rparr>"

definition meta_of :: "asset_group \<Rightarrow> bytes \<Rightarrow> tar_entry" where
  "meta_of g m = \<lparr>Name = gid g @ ''/asset.meta'', Body = m, Intact = True\<rparr>"

definition pathname_of :: "asset_group \<Rightarrow> tar_entry" where
  "pathname_of g = \<lparr>Name = gid g @ ''/pathname'', Body = logical g, Intact = True\<rparr>"

definition group_layouts :: "asset_group \<Rightarrow> tar_entry list list" where
  "group_layouts g =
     (case sidecar g of
        None \<Rightarrow> [[asset_of g, pathname_of g]]
      | Some m \<Rightarrow>
          [[asset_of g, meta_of g m, pathname_of g],
           [meta_of g m, asset_of g, pathname_of g]])"

text \<open>
  The entries the loop acts on are the \<open>asset\<close>, \<open>asset.meta\<close> and \<open>pathname\<close>
  members; directory entries, other members and entries at the root of the
  archive may stand anywhere.  An archive is well grouped when these member
  entries are, group after group, the entries of each group in one of its
  orders.
\<close>

definition relevant :: "tar_entry \<Rightarrow> bool" where
  "relevant e =
     (member_name e = ''asset'' \<or> member_name e = ''asset.meta'' \<or> member_name e = ''pathname'')"

fun grouped :: "tar_entry list \<Rightarrow> asset_group list \<Rightarrow> bool" where
  "grouped es [] = (es = [])"
| "grouped es (g # gs) =
     list_ex (\<lambda>b. take (length b) es = b \<and> grouped (drop (length b) es) gs) (group_layouts g)"

text \<open>
  The temporary directory is ready for the groups: no staged path is blocked (no
  regular file where the temporary directory, a directory above it or the
  directory of a group goes, no directory where a staged file goes).
\<close>

definition staging_ready :: "string \<Rightarrow> asset_group list \<Rightarrow> filesys \<Rightarrow> bool" where
  "staging_ready t gs fs =
     (t \<noteq> [] \<and>
      list_all (\<lambda>p. lookup fs (fst (parse t), p) = None \<or>
                     lookup fs (fst (parse t), p) = Some Dir) (prefixes (snd (parse t))) \<and>
      list_all (\<lambda>g.
         (lookup fs (fst (parse t), snd (parse t) @ [gid g]) = None \<or>
          lookup fs (fst (parse t), snd (parse t) @ [gid g]) = Some Dir) \<and>
         lookup fs (fst (parse t), snd (parse t) @ [gid g, ''asset'']) \<noteq> Some Dir \<and>
         lookup fs (fst (parse t), snd (parse t) @ [gid g, ''asset.meta'']) \<noteq> Some Dir) gs)"

text \<open>The same of one group, for the temporary directory with the resolved path \<open>(r, ts)\<close>.\<close>

definition clear :: "bool \<Rightarrow> string list \<Rightarrow> asset_group \<Rightarrow> filesys \<Rightarrow> bool" where
  "clear r ts g fs =
     ((fs (r, ts @ [gid g]) = None \<or> fs (r, ts @ [gid g]) = Some Dir) \<and>
      fs (r, ts @ [gid g, ''asset'']) \<noteq> Some Dir \<and>
      fs (r, ts @ [gid g, ''asset.meta'']) \<noteq> Some Dir)"

text \<open>
  The record \<open>r\<close> is the record of the group \<open>g\<close> in the file tree: it has the group's
  logical path, and its staged payload (and sidecar, when the group has one) holds
  the bytes of the group's entry.
\<close>

definition matches :: "string \<Rightarrow> filesys \<Rightarrow> UnityAsset \<Rightarrow> asset_group \<Rightarrow> bool" where
  "matches t fs r g =
     (PathName r = logical g \<and>
      AssetPath r = filepath_Join [t, gid g, ''asset''] \<and>
      lookup fs (parse (AssetPath r)) = Some (File (payload g)) \<and>
      (case sidecar g of
         None \<Rightarrow> MetaPath r = []
       | Some m \<Rightarrow>
           MetaPath r = filepath_Join [t, gid g, ''asset.meta''] \<and>
           lookup fs (parse (MetaPath r)) = Some (File m)))"

text \<open>The record and the staged files that the entries of one group produce.\<close>

definition record_for :: "string \<Rightarrow> asset_group \<Rightarrow> UnityAsset" where
  "record_for t g =
     \<lparr>AssetPath = filepath_Join [t, gid g, ''asset''],
      MetaPath = (case sidecar g of
                    None \<Rightarrow> []
                  | Some m \<Rightarrow> filepath_Join [t, gid g, ''asset.meta'']),
      PathName = logical g\<rparr>"

definition stage :: "path \<Rightarrow> asset_group \<Rightarrow> filesys \<Rightarrow> filesys" where
  "stage T g fs =
     (case sidecar g of
        None \<Rightarrow>
          fs((fst T, snd T @ [gid g]) \<mapsto> Dir,
             (fst T, snd T @ [gid g, ''asset'']) \<mapsto> File (payload g))
      | Some m \<Rightarrow>
          fs((fst T, snd T @ [gid g]) \<mapsto> Dir,
             (fst T, snd T @ [gid g, ''asset'']) \<mapsto> File (payload g),
             (fst T, snd T @ [gid g, ''asset.meta'']) \<mapsto> File m))"

text \<open>
  The group of the Wood material and a group with a sidecar; an archive that
  holds both, the second with its \<open>asset.meta\<close> entry first, among a file at the
  root, a directory entry and a member that is none of the three; a world whose
  temporary directory is \<open>tmp\<close>.
\<close>

definition wood_group :: asset_group where
  "wood_group = \<lparr>gid = ''abc123'', payload = wood_bytes, sidecar = None,
     logical = ''Materials/Wood.mat''\<rparr>"

definition oak_group :: asset_group where
  "oak_group = \<lparr>gid = ''def456'', payload = ''oak pixels'', sidecar = Some ''oak settings'',
     logical = ''Textures/Oak.png''\<rparr>"

definition rich_archive :: archive where
  "rich_archive = \<lparr>header_ok = True,
     entries = [\<lparr>Name = ''README.txt'', Body = ''read me'', Intact = True\<rparr>,
                \<lparr>Name = ''abc123/'', Body = [], Intact = True\<rparr>,
                \<lparr>Name = ''abc123/asset'', Body = wood_bytes, Intact = True\<rparr>,
                \<lparr>Name = ''abc123/preview.png'', Body = ''pixels'', Intact = True\<rparr>,
                \<lparr>Name = ''abc123/pathname'', Body = ''Materials/Wood.mat'', Intact = True\<rparr>,
                \<lparr>Name = ''def456/asset.meta'', Body = ''oak settings'', Intact = True\<rparr>,
                \<lparr>Name = ''def456/asset'', Body = ''oak pixels'', Intact = True\<rparr>,
                \<lparr>Name = ''def456/pathname'', Body = ''Textures/Oak.png'', Intact = True\<rparr>],
     ending = End_of_archive\<rparr>"

definition staging_world :: world where
  "staging_world = \<lparr>files = Map.empty((False, [''tmp'']) \<mapsto> Dir), stdout = [], synced = [],
     refused = same_volume\<rparr>"

text \<open>
  Archives in which every group has one \<open>pathname\<close> and one \<open>asset\<close> entry: in the
  first the \<open>pathname\<close> entry comes first; in the second each group has its
  \<open>asset\<close> entry before its \<open>pathname\<close> entry, and the groups are interleaved; in
  the third the identifiers of the two groups are the empty name and \<open>.\<close>, which
  stage to one path.  And a world in which a regular file stands where the
  directory of the group \<open>abc123\<close> goes.
\<close>

definition pathname_first_archive :: archive where
  "pathname_first_archive = \<lparr>header_ok = True,
     entries = [\<lparr>Name = ''g1/pathname'', Body = ''a.txt'', Intact = True\<rparr>,
                \<lparr>Name = ''g1/asset'', Body = ''payload'', Intact = True\<rparr>],
     ending = End_of_archive\<rparr>"

definition interleaved_archive :: archive where
  "interleaved_archive = \<lparr>header_ok = True,
     entries = [\<lparr>Name = ''A/asset'', Body = ''bytes of A'', Intact = True\<rparr>,
                \<lparr>Name = ''B/asset'', Body = ''bytes of B'', Intact = True\<rparr>,
                \<lparr>Name = ''A/pathname'', Body = ''a.txt'', Intact = True\<rparr>,
                \<lparr>Name = ''B/pathname'', Body = ''b.txt'', Intact = True\<rparr>],
     ending = End_of_archive\<rparr>"

definition dotted_archive :: archive where
  "dotted_archive = \<lparr>header_ok = True,
     entries = [\<lparr>Name = ''/asset'', Body = ''first bytes'', Intact = True\<rparr>,
                \<lparr>Name = ''/pathname'', Body = ''a.txt'', Intact = True\<rparr>,
                \<lparr>Name = ''./asset'', Body = ''second bytes'', Intact = True\<rparr>,
                \<lparr>Name = ''./pathname'', Body = ''b.txt'', Intact = True\<rparr>],
     ending = End_of_archive\<rparr>"

definition blocked_world :: world where
  "blocked_world =
     \<lparr>files = Map.empty((False, [''tmp'']) \<mapsto> Dir, (False, [''tmp'', ''abc123'']) \<mapsto> File ''x''),
      stdout = [], synced = [], refused = same_volume\<rparr>"


text \<open>
  A record the Reconstructor works on: its logical path is not empty and its
  payload location is present.
\<close>

definition eligible :: "UnityAsset \<Rightarrow> bool" where
  "eligible a = (PathName a \<noteq> [] \<and> AssetPath a \<noteq> [])"

text \<open>Two worlds with the same file tree and the same environment.\<close>

definition same_tree :: "world \<Rightarrow> world \<Rightarrow> bool" where
  "same_tree w v = (files w = files v \<and> refused w = refused v)"

text \<open>
  A record with payload and sidecar, a record without sidecar, a record without
  payload and a record whose payload file does not exist; a working directory
  with the files \<open>a\<close> and \<open>m\<close>, on a system that refuses every rename.
\<close>

definition with_sidecar :: UnityAsset where
  "with_sidecar = \<lparr>AssetPath = ''a'', MetaPath = ''m'', PathName = ''Textures/Oak.png''\<rparr>"

definition two_files :: world where
  "two_files =
     \<lparr>files = Map.empty((False, [''a'']) \<mapsto> File ''xyz'', (False, [''m'']) \<mapsto> File ''settings''),
      stdout = [], synced = [], refused = other_volume\<rparr>"

definition payload_only :: UnityAsset where
  "payload_only = \<lparr>AssetPath = ''a'', MetaPath = [], PathName = ''Materials/Wood.mat''\<rparr>"

definition no_payload :: UnityAsset where
  "no_payload = \<lparr>AssetPath = [], MetaPath = ''m'', PathName = ''Materials/Lost.mat''\<rparr>"

definition lost_payload :: UnityAsset where
  "lost_payload = \<lparr>AssetPath = ''gone'', MetaPath = [], PathName = ''Materials/Gone.mat''\<rparr>"


section \<open>The default output directory\<close>


lemma ext_scan_plain:
  "sep \<notin> set xs \<Longrightarrow>
   ext_scan xs acc =
     (if CHR ''.'' \<in> set xs then CHR ''.'' # rev (takeWhile (\<lambda>c. c \<noteq> CHR ''.'') xs) @ acc else [])"
  by (induction xs arbitrary: acc) auto

lemma ext_scan_sep: "ext_scan [sep] acc = []"
  by simp

lemma Base_no_sep: "filepath_Base p = [sep] \<or> sep \<notin> set (filepath_Base p)"
proof -
  have "sep \<notin> set (rev (takeWhile (\<lambda>c. c \<noteq> sep) xs))" for xs
    by (auto dest: set_takeWhileD)
  then show ?thesis
    by (auto simp: filepath_Base_def Let_def sep_def)
qed

lemma split_at_last_dot:
  assumes "CHR ''.'' \<in> set b"
  shows "b = rev (tl (dropWhile (\<lambda>c. c \<noteq> CHR ''.'') (rev b))) @
             CHR ''.'' # rev (takeWhile (\<lambda>c. c \<noteq> CHR ''.'') (rev b))"
proof -
  let ?P = "\<lambda>c. c \<noteq> CHR ''.''"
  from assms have "dropWhile ?P (rev b) \<noteq> []" by (simp add: dropWhile_eq_Nil_conv)
  moreover have "hd (dropWhile ?P (rev b)) = CHR ''.''"
    using calculation hd_dropWhile [of ?P "rev b"] by auto
  ultimately have d: "dropWhile ?P (rev b) = CHR ''.'' # tl (dropWhile ?P (rev b))"
    by (cases "dropWhile ?P (rev b)") auto
  have "rev b = takeWhile ?P (rev b) @ dropWhile ?P (rev b)" by simp
  then have "rev b = takeWhile ?P (rev b) @ CHR ''.'' # tl (dropWhile ?P (rev b))"
    using d by simp
  then have "rev (rev b) = rev (takeWhile ?P (rev b) @ CHR ''.'' # tl (dropWhile ?P (rev b)))"
    by simp
  then show ?thesis by simp
qed

lemma TrimSuffix_append: "TrimSuffix (xs @ ys) ys = xs"
  by (simp add: TrimSuffix_def)

lemma TrimSuffix_Nil: "TrimSuffix xs [] = xs"
  by (simp add: TrimSuffix_def)

lemma trim_ext_plain:
  assumes "sep \<notin> set b"
  shows "TrimSuffix b (filepath_Ext b) = strip_final_extension b"
proof (cases "CHR ''.'' \<in> set b")
  case True
  let ?pre = "rev (tl (dropWhile (\<lambda>c. c \<noteq> CHR ''.'') (rev b)))"
  let ?suf = "CHR ''.'' # rev (takeWhile (\<lambda>c. c \<noteq> CHR ''.'') (rev b))"
  have e: "filepath_Ext b = ?suf"
    using assms True by (simp add: filepath_Ext_def ext_scan_plain)
  have "TrimSuffix (?pre @ ?suf) ?suf = ?pre" by (rule TrimSuffix_append)
  then have "TrimSuffix b ?suf = ?pre"
    using split_at_last_dot [OF True] by simp
  then show ?thesis using True e by (simp add: strip_final_extension_def)
next
  case False
  then show ?thesis using assms
    by (simp add: filepath_Ext_def ext_scan_plain strip_final_extension_def TrimSuffix_Nil)
qed

lemma trim_ext_sep: "TrimSuffix [sep] (filepath_Ext [sep]) = strip_final_extension [sep]"
  by (simp add: filepath_Ext_def TrimSuffix_def strip_final_extension_def sep_def)

text \<open>
  Claim C8.  With the output directory left out of the command line, the output
  directory is the base name of the input file with its final extension stripped;
  for the single argument \<open>MyPackage.unitypackage\<close> it is \<open>MyPackage\<close>.
\<close>

theorem output_dir_is_base_without_extension:
  "output_dir [prog, inputFile] = strip_final_extension (filepath_Base inputFile)
   \<and> output_dir [prog, ''MyPackage.unitypackage''] = ''MyPackage''"
proof
  show "output_dir [prog, inputFile] = strip_final_extension (filepath_Base inputFile)"
    using Base_no_sep [of inputFile] trim_ext_plain [of "filepath_Base inputFile"] trim_ext_sep
    by (auto simp: output_dir_def)
  show "output_dir [prog, ''MyPackage.unitypackage''] = ''MyPackage''"
    by code_simp
qed

section \<open>One record for each pathname entry\<close>

lemma SplitN2_cases:
  obtains (two) d f where "SplitN2 s = [d, f]" | (one) "SplitN2 s = [s]"
  by (cases "sep \<in> set s") (auto simp: SplitN2_def)

lemma extract_entry_pathname:
  assumes "pathname_entry e"
  shows "extract_entry t e (cur, acc) fs =
           (if Intact e then (Inr (empty_asset, acc @ [cur\<lparr>PathName := Body e\<rparr>]), fs)
            else (Inl E_read_pathname, fs))"
proof (cases "Name e" rule: SplitN2_cases)
  case (two d f)
  then show ?thesis using assms by (simp add: pathname_entry_def extract_entry_def)
next
  case one
  then show ?thesis using assms by (simp add: pathname_entry_def)
qed

lemma extract_entry_other:
  assumes "\<not> pathname_entry e" and "extract_entry t e (cur, acc) fs = (Inr (cur', acc'), fs')"
  shows "acc' = acc"
proof (cases "Name e" rule: SplitN2_cases)
  case (two d f)
  then show ?thesis using assms
    by (auto simp: pathname_entry_def extract_entry_def Let_def split: sum.splits if_splits)
next
  case one
  then show ?thesis using assms by (simp add: extract_entry_def)
qed

lemma extract_loop_pathnames:
  "extract_loop t es fin (cur, acc) fs = (Inr assets, fs') \<Longrightarrow>
   map PathName assets = map PathName acc @ map Body (filter pathname_entry es)"
proof (induction es arbitrary: cur acc fs)
  case Nil
  then show ?case by (simp split: if_splits)
next
  case (Cons e es)
  show ?case
  proof (cases "extract_entry t e (cur, acc) fs")
    case (Pair r fs1)
    show ?thesis
    proof (cases r)
      case (Inl x)
      with Pair Cons.prems show ?thesis by simp
    next
      case (Inr st)
      obtain cur1 acc1 where st: "st = (cur1, acc1)" by (cases st)
      from Pair Inr st Cons.prems
      have loop: "extract_loop t es fin (cur1, acc1) fs1 = (Inr assets, fs')" by simp
      have ih: "map PathName assets = map PathName acc1 @ map Body (filter pathname_entry es)"
        by (rule Cons.IH [OF loop])
      show ?thesis
      proof (cases "pathname_entry e")
        case True
        with Pair Inr st have "acc1 = acc @ [cur\<lparr>PathName := Body e\<rparr>]"
          by (simp add: extract_entry_pathname split: if_splits)
        with ih True show ?thesis by simp
      next
        case False
        with Pair Inr st have "acc1 = acc" using extract_entry_other by blast
        with ih False show ?thesis by simp
      qed
    qed
  qed
qed

lemma extractTarGz_Inr:
  assumes "extractTarGz srcFile t (Some a) w = (Inr assets, w')"
  shows "\<exists>fs'. extract_loop t (entries a) (ending a) (empty_asset, []) (files w) = (Inr assets, fs')"
  using assms
  by (auto simp: extractTarGz_def say_def split: if_splits prod.splits sum.splits)

text \<open>
  Claim C10.  When \<open>extractTarGz\<close> returns its list, the list has one record for
  each \<open>pathname\<close> member entry of the archive, in the order of these entries (the
  record's logical path is the entry's text), whatever else the groups hold; and
  the round of the loop that reads a \<open>pathname\<close> entry appends the current record
  and leaves the empty record as the current one.
\<close>

theorem one_record_per_pathname_entry:
  assumes "extractTarGz srcFile tempDir (Some a) w = (Inr assets, w')"
  shows "length assets = length (filter pathname_entry (entries a))
       \<and> map PathName assets = map Body (filter pathname_entry (entries a))
       \<and> (\<forall>e cur acc t fs. pathname_entry e \<and> Intact e \<longrightarrow>
             extract_entry t e (cur, acc) fs =
               (Inr (empty_asset, acc @ [cur\<lparr>PathName := Body e\<rparr>]), fs))"
proof -
  from extractTarGz_Inr [OF assms] obtain fs' where
    "extract_loop tempDir (entries a) (ending a) (empty_asset, []) (files w) = (Inr assets, fs')"
    by blast
  then have m: "map PathName assets = map Body (filter pathname_entry (entries a))"
    using extract_loop_pathnames by fastforce
  then have "length (map PathName assets) = length (map Body (filter pathname_entry (entries a)))"
    by simp
  then have l: "length assets = length (filter pathname_entry (entries a))" by simp
  show ?thesis using m l by (simp add: extract_entry_pathname)
qed

text \<open>A run of Claim C10's theorem: the archive of the Wood material.\<close>

theorem one_record_per_pathname_entry_witness:
  "extractTarGz ''Wood.unitypackage'' ''tmp'' (Some wood_archive) (start_world same_volume) =
     (Inr [\<lparr>AssetPath = ''tmp/abc123/asset'', MetaPath = [], PathName = ''Materials/Wood.mat''\<rparr>],
      snd (extractTarGz ''Wood.unitypackage'' ''tmp'' (Some wood_archive) (start_world same_volume)))
   \<and> length [\<lparr>AssetPath = ''tmp/abc123/asset'', MetaPath = [], PathName = ''Materials/Wood.mat''\<rparr>] =
       length (filter pathname_entry (entries wood_archive))"
proof -
  have f: "fst (extractTarGz ''Wood.unitypackage'' ''tmp'' (Some wood_archive) (start_world same_volume)) =
      Inr [\<lparr>AssetPath = ''tmp/abc123/asset'', MetaPath = [], PathName = ''Materials/Wood.mat''\<rparr>]"
    by code_simp
  then have e: "extractTarGz ''Wood.unitypackage'' ''tmp'' (Some wood_archive) (start_world same_volume) =
     (Inr [\<lparr>AssetPath = ''tmp/abc123/asset'', MetaPath = [], PathName = ''Materials/Wood.mat''\<rparr>],
      snd (extractTarGz ''Wood.unitypackage'' ''tmp'' (Some wood_archive) (start_world same_volume)))"
    by (metis prod.collapse)
  from one_record_per_pathname_entry [OF e] e show ?thesis by blast
qed

section \<open>Scenarios\<close>

text \<open>
  Claim C9.  There is an archive whose payload is written outside the destination
  root: the \<open>pathname\<close> entry holds \<open>../../escaped.txt\<close>, the destination root is
  \<open>out\<close>, the text is joined to the root as it is, and the payload ends in
  \<open>../escaped.txt\<close>, which is not below \<open>out\<close>.
\<close>

theorem pathname_escapes_destination:
  "fst escaping_run = 0
   \<and> filepath_Join [''out'', ''../../escaped.txt''] = ''../escaped.txt''
   \<and> lookup (files (snd escaping_run)) (parse ''../escaped.txt'') = Some (File ''payload'')
   \<and> \<not> under (parse ''out'') (parse ''../escaped.txt'')"
  by code_simp

text \<open>
  Claim C4, at the input where the code departs from it.  The input file has an
  invalid gzip header: \<open>extractTarGz\<close> fails, \<open>main\<close> calls \<open>os.Exit(1)\<close>, the deferred
  removal does not run, and the temporary directory
  \<open>bad/.tmp_unpack/unpack-unitypackage-4242\<close> is still there when the process has
  ended.
\<close>

theorem temporary_directory_left_on_failure:
  "fst bad_header_run = 1
   \<and> lookup (files (snd bad_header_run)) (parse ''bad/.tmp_unpack/unpack-unitypackage-4242'') =
       Some Dir
   \<and> lookup (files (snd bad_header_run)) (parse ''bad/.tmp_unpack'') = Some Dir"
  by code_simp

section \<open>An invalid gzip header\<close>

lemma adds_only_dirs_refl: "adds_only_dirs fs fs"
  by (simp add: adds_only_dirs_def)

lemma adds_only_dirs_trans:
  "adds_only_dirs fs fs1 \<Longrightarrow> adds_only_dirs fs1 fs2 \<Longrightarrow> adds_only_dirs fs fs2"
  unfolding adds_only_dirs_def by metis

lemma lookup_None: "lookup fs q = None \<Longrightarrow> fs q = None"
  by (simp add: lookup_def split: if_splits)

lemma adds_only_dirs_upd: "lookup fs q = None \<Longrightarrow> adds_only_dirs fs (fs(q \<mapsto> Dir))"
  by (auto simp: adds_only_dirs_def dest: lookup_None)

lemma mkdir_chain_adds: "mkdir_chain r pre cs fs = Inr fs' \<Longrightarrow> adds_only_dirs fs fs'"
proof (induction cs arbitrary: pre fs)
  case Nil
  then show ?case by (simp add: adds_only_dirs_refl)
next
  case (Cons c cs)
  show ?case
  proof (cases "lookup fs (r, pre @ [c])")
    case None
    with Cons.prems have "mkdir_chain r (pre @ [c]) cs (fs((r, pre @ [c]) \<mapsto> Dir)) = Inr fs'"
      by simp
    then have "adds_only_dirs (fs((r, pre @ [c]) \<mapsto> Dir)) fs'" by (rule Cons.IH)
    with adds_only_dirs_upd [OF None] show ?thesis by (rule adds_only_dirs_trans)
  next
    case (Some n)
    with Cons.prems Cons.IH show ?thesis by (cases n) auto
  qed
qed

lemma os_MkdirAll_adds: "os_MkdirAll name fs = Inr fs' \<Longrightarrow> adds_only_dirs fs fs'"
  by (auto simp: os_MkdirAll_def split: if_splits prod.splits dest: mkdir_chain_adds)

lemma os_MkdirTemp_adds: "os_MkdirTemp d p rnd fs = Inr (name, fs') \<Longrightarrow> adds_only_dirs fs fs'"
  by (auto simp: os_MkdirTemp_def Let_def split: option.splits node.splits intro: adds_only_dirs_upd)

lemma extractTarGz_bad_header:
  "\<not> header_ok a \<Longrightarrow>
   extractTarGz srcFile tempDir (Some a) w = (Inl E_gzip_reader, say (Info_extracting srcFile) w)"
  by (simp add: extractTarGz_def)

lemma files_say: "files (say m w) = files w"
  by (simp add: say_def)

lemma main_bad_header:
  assumes "\<not> header_ok a"
  shows "fst (main args (Some a) rnd w) = 1
       \<and> adds_only_dirs (files w) (files (snd (main args (Some a) rnd w)))"
proof (cases "length args < 2")
  case True
  then show ?thesis by (simp add: main_def files_say adds_only_dirs_refl)
next
  case False
  let ?w1 = "say (Info_output (output_dir args)) (say (Info_input (args ! 1)) w)"
  have f1: "files ?w1 = files w" by (simp add: files_say)
  show ?thesis
  proof (cases "os_MkdirAll (output_dir args) (files w)")
    case (Inl x)
    with False f1 show ?thesis by (simp add: main_def Let_def files_say adds_only_dirs_refl)
  next
    case (Inr fs2)
    then have a2: "adds_only_dirs (files w) fs2" by (rule os_MkdirAll_adds)
    show ?thesis
    proof (cases "os_MkdirAll (filepath_Join [output_dir args, ''.tmp_unpack'']) fs2")
      case (Inl x)
      with False f1 Inr a2 show ?thesis by (simp add: main_def Let_def files_say)
    next
      case fs3: (Inr fs3)
      then have a3: "adds_only_dirs (files w) fs3"
        using a2 os_MkdirAll_adds adds_only_dirs_trans by blast
      show ?thesis
      proof (cases "os_MkdirTemp (filepath_Join [output_dir args, ''.tmp_unpack''])
                      ''unpack-unitypackage-'' rnd fs3")
        case (Inl x)
        with False f1 Inr fs3 a3 show ?thesis by (simp add: main_def Let_def files_say)
      next
        case tmp: (Inr r)
        obtain tempDir fs4 where r: "r = (tempDir, fs4)" by (cases r)
        with tmp have a4: "adds_only_dirs (files w) fs4"
          using a3 os_MkdirTemp_adds adds_only_dirs_trans by blast
        from False f1 Inr fs3 tmp r a4 assms show ?thesis
          by (simp add: main_def Let_def files_say extractTarGz_bad_header)
      qed
    qed
  qed
qed

text \<open>
  Claim C7, amended.  For every input whose gzip header is invalid (so that
  \<open>gzip.NewReader\<close> fails, as with truncated magic bytes), \<open>extractTarGz\<close> fails
  before it reads any tar entry, the process exits with status 1, and no regular
  file is written or changed anywhere: the only change to the file tree is the
  directories made on the way (the output directory and the temporary directory
  in it).
\<close>

theorem invalid_header_fails_before_any_entry:
  assumes "\<not> header_ok a"
  shows "extractTarGz srcFile tempDir (Some a) w =
           (Inl E_gzip_reader, say (Info_extracting srcFile) w)
       \<and> fst (main args (Some a) rnd w) = 1
       \<and> adds_only_dirs (files w) (files (snd (main args (Some a) rnd w)))"
  using assms main_bad_header extractTarGz_bad_header by blast

text \<open>A run of the theorem of Claim C7: an input with an invalid header.\<close>

theorem invalid_header_fails_before_any_entry_witness:
  "\<not> header_ok bad_header
   \<and> fst bad_header_run = 1
   \<and> adds_only_dirs (files (start_world same_volume)) (files (snd bad_header_run))"
proof -
  have h: "\<not> header_ok bad_header" by (simp add: bad_header_def)
  from invalid_header_fails_before_any_entry [OF h] h show ?thesis
    unfolding bad_header_run_def by blast
qed

text \<open>
  Claim C7 as stated fails for an input that is not a valid gzip stream but has
  a valid header: the first tar entry is processed and staged below the
  destination directory, and it is still there after the fatal exit.
\<close>

theorem corrupt_stream_counterexample:
  "\<not> valid_gzip torn_archive
   \<and> fst torn_run = 1
   \<and> lookup (files (snd torn_run)) (parse ''out/.tmp_unpack/unpack-unitypackage-4242/g1/asset'') =
       Some (File ''payload'')
   \<and> under (parse ''out'') (parse ''out/.tmp_unpack/unpack-unitypackage-4242/g1/asset'')"
  by code_simp

section \<open>Relocating a file\<close>

lemma lookup_File: "lookup fs q = Some (File b) \<Longrightarrow> fs q = Some (File b) \<and> \<not> list_all (\<lambda>c. c = ''..'') (snd q)"
  by (simp add: lookup_def split: if_splits)

lemma adds_lookup: "adds_only_dirs fs fs' \<Longrightarrow> lookup fs q = Some n \<Longrightarrow> lookup fs' q = Some n"
  unfolding adds_only_dirs_def lookup_def by (metis option.distinct(1))

lemma copy_after_create:
  assumes src: "lookup fs1 (parse source) = Some (File b)"
    and ne: "parse source \<noteq> parse destination"
    and cr: "os_Create destination fs1 = Inr fs2"
    and cp: "copy_bytes source destination fs2 = Inr fs3"
  shows "lookup fs3 (parse destination) = Some (File b) \<and> lookup fs3 (parse source) = Some (File b)"
proof -
  from cr have fs2: "fs2 = fs1(parse destination \<mapsto> File [])"
    and nd: "lookup fs1 (parse destination) \<noteq> Some Dir"
    by (auto simp: os_Create_def split: if_splits option.splits node.splits)
  from nd have ni: "\<not> list_all (\<lambda>c. c = ''..'') (snd (parse destination))"
    by (auto simp: lookup_def)
  from src ne fs2 have s2: "lookup fs2 (parse source) = Some (File b)"
    by (auto simp: lookup_def)
  with cp have fs3: "fs3 = write_bytes destination b fs2"
    by (simp add: copy_bytes_def)
  then have "fs3 = fs2(parse destination \<mapsto> File b)"
    using fs2 by (simp add: write_bytes_def)
  with s2 ne ni show ?thesis by (auto simp: lookup_def)
qed

lemma rename_file:
  assumes src: "lookup fs1 (parse source) = Some (File b)"
    and ne: "parse source \<noteq> parse destination"
    and rn: "os_Rename R source destination fs1 = Inr fs2"
  shows "lookup fs2 (parse destination) = Some (File b) \<and> lookup fs2 (parse source) = None"
proof -
  from src have s: "fs1 (parse source) = Some (File b)"
    and ns: "\<not> list_all (\<lambda>c. c = ''..'') (snd (parse source))"
    using lookup_File by blast+
  from rn ne have nd: "lookup fs1 (parse destination) \<noteq> Some Dir"
    by (auto simp: os_Rename_def split: if_splits option.splits)
  then have ni: "\<not> list_all (\<lambda>c. c = ''..'') (snd (parse destination))"
    by (auto simp: lookup_def)
  from rn src ne nd have "fs2 = (fs1(parse source := None))(parse destination \<mapsto> File b)"
    by (auto simp: os_Rename_def split: if_splits option.splits node.splits)
  with ne ns ni show ?thesis by (auto simp: lookup_def)
qed

lemma moveFile_bytes:
  assumes src: "lookup (files w) (parse source) = Some (File b)"
    and ne: "parse source \<noteq> parse destination"
    and mv: "moveFile source destination w = (Inr (), w1)"
  shows "lookup (files w1) (parse destination) = Some (File b) \<and> synced w1 = synced w \<and>
         (\<forall>fs1. os_MkdirAll (filepath_Dir destination) (files w) = Inr fs1 \<longrightarrow>
            (case os_Rename (refused w) source destination fs1 of
               Inr fs2 \<Rightarrow> files w1 = fs2
             | Inl e \<Rightarrow>
                 (\<exists>fs2. os_Create destination fs1 = Inr fs2 \<and>
                        copy_bytes source destination fs2 = Inr (files w1))))"
proof (cases "os_MkdirAll (filepath_Dir destination) (files w)")
  case (Inl x)
  with mv show ?thesis by (simp add: moveFile_def)
next
  case (Inr fs1)
  then have s1: "lookup fs1 (parse source) = Some (File b)"
    using src os_MkdirAll_adds adds_lookup by blast
  show ?thesis
  proof (cases "os_Rename (refused w) source destination fs1")
    case rn: (Inr fs2)
    with Inr mv have "w1 = w\<lparr>files := fs2\<rparr>" by (simp add: moveFile_def)
    with rename_file [OF s1 ne rn] Inr rn show ?thesis by simp
  next
    case rf: (Inl e)
    from Inr rf mv obtain fs2 fs3 where
      cr: "os_Create destination fs1 = Inr fs2" and
      cp: "copy_bytes source destination fs2 = Inr fs3" and
      w1: "w1 = w\<lparr>files := fs3\<rparr>"
      by (auto simp: moveFile_def split: sum.splits)
    with copy_after_create [OF s1 ne cr cp] Inr rf show ?thesis by simp
  qed
qed

lemma copyFile_bytes:
  assumes src: "lookup (files w) (parse source) = Some (File b)"
    and ne: "parse source \<noteq> parse destination"
    and cpf: "copyFile source destination w = (Inr (), w2)"
  shows "lookup (files w2) (parse destination) = Some (File b) \<and>
         synced w2 = parse destination # synced w"
proof -
  from cpf obtain fs2 fs3 where
    cr: "os_Create destination (files w) = Inr fs2" and
    cp: "copy_bytes source destination fs2 = Inr fs3" and
    w2: "w2 = w\<lparr>files := fs3, synced := parse destination # synced w\<rparr>"
    by (auto simp: copyFile_def split: sum.splits if_splits)
  with copy_after_create [OF src ne cr cp] show ?thesis by simp
qed

text \<open>
  Claim C5, amended.  The source is a regular file and the destination another
  path.  \<open>moveFile\<close> makes the destination's directories and tries the rename
  first: when the rename succeeds, the file tree it leaves is the one the rename
  made; if and only if the rename fails, the tree is the one made by creating the
  destination and copying the bytes of the source into it.  In either case, when
  \<open>moveFile\<close> reports success the destination holds the bytes the source held,
  and no file has been synced.  When \<open>copyFile\<close> (the variant without rename)
  reports success, the destination holds the bytes of the source and has been
  synced.
\<close>

theorem relocation_keeps_bytes:
  assumes "lookup (files w) (parse source) = Some (File b)"
    and "parse source \<noteq> parse destination"
  shows "(moveFile source destination w = (Inr (), w1) \<longrightarrow>
            lookup (files w1) (parse destination) = Some (File b) \<and> synced w1 = synced w \<and>
            (\<forall>fs1. os_MkdirAll (filepath_Dir destination) (files w) = Inr fs1 \<longrightarrow>
               (case os_Rename (refused w) source destination fs1 of
                  Inr fs2 \<Rightarrow> files w1 = fs2
                | Inl e \<Rightarrow>
                    (\<exists>fs2. os_Create destination fs1 = Inr fs2 \<and>
                           copy_bytes source destination fs2 = Inr (files w1)))))
       \<and> (copyFile source destination w = (Inr (), w2) \<longrightarrow>
            lookup (files w2) (parse destination) = Some (File b) \<and>
            synced w2 = parse destination # synced w)"
  using assms moveFile_bytes copyFile_bytes by blast

text \<open>A run of the theorem of Claim C5: the file \<open>a\<close> relocated to \<open>b\<close>.\<close>

theorem relocation_keeps_bytes_witness:
  "lookup (files one_file) (parse ''a'') = Some (File ''xyz'')
   \<and> parse ''a'' \<noteq> parse ''b''
   \<and> moveFile ''a'' ''b'' one_file = (Inr (), snd (moveFile ''a'' ''b'' one_file))
   \<and> lookup (files (snd (moveFile ''a'' ''b'' one_file))) (parse ''b'') = Some (File ''xyz'')
   \<and> copyFile ''a'' ''b'' one_file = (Inr (), snd (copyFile ''a'' ''b'' one_file))
   \<and> lookup (files (snd (copyFile ''a'' ''b'' one_file))) (parse ''b'') = Some (File ''xyz'')"
proof -
  have h1: "lookup (files one_file) (parse ''a'') = Some (File ''xyz'')" by code_simp
  have h2: "parse ''a'' \<noteq> parse ''b''" by code_simp
  have "fst (moveFile ''a'' ''b'' one_file) = Inr ()" by code_simp
  then have m: "moveFile ''a'' ''b'' one_file = (Inr (), snd (moveFile ''a'' ''b'' one_file))"
    by (metis prod.collapse)
  have "fst (copyFile ''a'' ''b'' one_file) = Inr ()" by code_simp
  then have c: "copyFile ''a'' ''b'' one_file = (Inr (), snd (copyFile ''a'' ''b'' one_file))"
    by (metis prod.collapse)
  from relocation_keeps_bytes [OF h1 h2, of "snd (moveFile ''a'' ''b'' one_file)"
      "snd (copyFile ''a'' ''b'' one_file)"] h1 h2 m c
  show ?thesis by blast
qed

text \<open>
  Claim C5 as stated fails on \<open>moveFile\<close>: with the rename refused, the copy reports
  success and the destination holds the bytes, but nothing was synced; and when
  source and destination are one file, the copy reports success and the file is
  empty.
\<close>

theorem moveFile_counterexample:
  "fst (moveFile ''a'' ''b'' one_file) = Inr ()
   \<and> lookup (files (snd (moveFile ''a'' ''b'' one_file))) (parse ''b'') = Some (File ''xyz'')
   \<and> synced (snd (moveFile ''a'' ''b'' one_file)) = []
   \<and> fst (moveFile ''a'' ''a'' one_file) = Inr ()
   \<and> lookup (files (snd (moveFile ''a'' ''a'' one_file))) (parse ''a'') = Some (File [])"
  by code_simp

section \<open>Records and the first path segment\<close>


lemma SplitN2_two: "SplitN2 (Name e) = [d, f] \<Longrightarrow> segment e = d \<and> member_name e = f"
  by (simp add: segment_def member_name_def)

lemma SplitN2_one: "SplitN2 (Name e) = [s] \<Longrightarrow> member_name e = []"
  by (simp add: member_name_def)

lemma pathname_entry_member: "pathname_entry e \<longleftrightarrow> member_name e = ''pathname''"
  by (cases "Name e" rule: SplitN2_cases) (auto simp: pathname_entry_def member_name_def)

lemma extract_entry_member_other:
  assumes "extract_entry t e (cur, acc) fs = (Inr (cur', acc'), fs')"
    and "member_name e \<noteq> ''asset''" "member_name e \<noteq> ''asset.meta''"
    and "member_name e \<noteq> ''pathname''"
  shows "acc' = acc \<and> cur' = cur"
proof (cases "Name e" rule: SplitN2_cases)
  case (two d f)
  then have "member_name e = f" using SplitN2_two by blast
  with assms two show ?thesis by (simp add: extract_entry_def)
next
  case one
  with assms show ?thesis by (simp add: extract_entry_def)
qed

lemma extract_entry_no_sep: "sep \<notin> set (Name e) \<Longrightarrow> extract_entry t e st fs = (Inr st, fs)"
  by (simp add: extract_entry_def SplitN2_def)

lemma extract_loop_filter_sep:
  "extract_loop t (filter (\<lambda>e. sep \<in> set (Name e)) es) fin st fs = extract_loop t es fin st fs"
  by (induction es arbitrary: st fs) (auto simp: extract_entry_no_sep split: prod.splits sum.splits)

lemma extractTarGz_filter_sep:
  "extractTarGz srcFile t (Some (a\<lparr>entries := filter (\<lambda>e. sep \<in> set (Name e)) (entries a)\<rparr>)) w =
   extractTarGz srcFile t (Some a) w"
  by (simp add: extractTarGz_def extract_loop_filter_sep)

lemma extract_entry_staged:
  assumes "extract_entry t e (cur, acc) fs = (Inr (cur', acc'), fs')"
  shows "member_name e = ''asset'' \<Longrightarrow>
           acc' = acc \<and> cur' = cur\<lparr>AssetPath := filepath_Join [t, segment e, ''asset'']\<rparr>"
    and "member_name e = ''asset.meta'' \<Longrightarrow>
           acc' = acc \<and> cur' = cur\<lparr>MetaPath := filepath_Join [t, segment e, ''asset.meta'']\<rparr>"
proof -
  show "member_name e = ''asset'' \<Longrightarrow>
           acc' = acc \<and> cur' = cur\<lparr>AssetPath := filepath_Join [t, segment e, ''asset'']\<rparr>"
  proof (cases "Name e" rule: SplitN2_cases)
    case (two d f)
    assume "member_name e = ''asset''"
    with two have "segment e = d" "f = ''asset''" using SplitN2_two by force+
    with assms two show ?thesis
      by (auto simp: extract_entry_def Let_def split: sum.splits if_splits)
  next
    case one
    assume "member_name e = ''asset''"
    with one show ?thesis using SplitN2_one by fastforce
  qed
  show "member_name e = ''asset.meta'' \<Longrightarrow>
           acc' = acc \<and> cur' = cur\<lparr>MetaPath := filepath_Join [t, segment e, ''asset.meta'']\<rparr>"
  proof (cases "Name e" rule: SplitN2_cases)
    case (two d f)
    assume "member_name e = ''asset.meta''"
    with two have "segment e = d" "f = ''asset.meta''" using SplitN2_two by force+
    with assms two show ?thesis
      by (auto simp: extract_entry_def Let_def split: sum.splits if_splits)
  next
    case one
    assume "member_name e = ''asset.meta''"
    with one show ?thesis using SplitN2_one by fastforce
  qed
qed

lemma staged_last_Nil: "staged_last t m [] = []"
  by (simp add: staged_last_def)

lemma staged_last_snoc:
  "staged_last t m (run @ [e]) =
     (if member_name e = m then filepath_Join [t, segment e, m] else staged_last t m run)"
  by (simp add: staged_last_def)

lemma closing_record_current:
  "AssetPath cur = staged_last t ''asset'' run \<Longrightarrow>
   MetaPath cur = staged_last t ''asset.meta'' run \<Longrightarrow>
   cur\<lparr>PathName := b\<rparr> = closing_record t run \<lparr>Name = n, Body = b, Intact = i\<rparr>"
  by (cases cur) (simp add: closing_record_def)

lemma closing_record_Body: "closing_record t run e = closing_record t run \<lparr>Name = n, Body = Body e, Intact = i\<rparr>"
  by (simp add: closing_record_def)

lemma extract_loop_runs:
  "extract_loop t es fin (cur, acc) fs = (Inr assets, fs') \<Longrightarrow>
   AssetPath cur = staged_last t ''asset'' run \<Longrightarrow>
   MetaPath cur = staged_last t ''asset.meta'' run \<Longrightarrow>
   assets = acc @ records_by_runs t run es"
proof (induction es arbitrary: cur acc fs run)
  case Nil
  then show ?case by (simp split: if_splits)
next
  case (Cons e es)
  obtain r fs1 where ee: "extract_entry t e (cur, acc) fs = (r, fs1)"
    by (cases "extract_entry t e (cur, acc) fs")
  with Cons.prems(1) obtain cur1 acc1 where r: "r = Inr (cur1, acc1)"
    by (cases r) auto
  from ee r Cons.prems(1)
  have loop: "extract_loop t es fin (cur1, acc1) fs1 = (Inr assets, fs')" by simp
  from ee r have step: "extract_entry t e (cur, acc) fs = (Inr (cur1, acc1), fs1)" by simp
  consider (asset) "member_name e = ''asset''" | (meta) "member_name e = ''asset.meta''"
    | (pathname) "member_name e = ''pathname''"
    | (other) "member_name e \<noteq> ''asset''" "member_name e \<noteq> ''asset.meta''"
        "member_name e \<noteq> ''pathname''"
    by blast
  then show ?case
  proof cases
    case asset
    from extract_entry_staged(1) [OF step asset]
    have a: "acc1 = acc" and c: "cur1 = cur\<lparr>AssetPath := filepath_Join [t, segment e, ''asset'']\<rparr>"
      by blast+
    have "assets = acc1 @ records_by_runs t (run @ [e]) es"
      using loop
    proof (rule Cons.IH)
      show "AssetPath cur1 = staged_last t ''asset'' (run @ [e])"
        using c asset by (simp add: staged_last_snoc)
      show "MetaPath cur1 = staged_last t ''asset.meta'' (run @ [e])"
        using c asset Cons.prems(3) by (simp add: staged_last_snoc)
    qed
    with a asset show ?thesis by simp
  next
    case meta
    from extract_entry_staged(2) [OF step meta]
    have a: "acc1 = acc" and c: "cur1 = cur\<lparr>MetaPath := filepath_Join [t, segment e, ''asset.meta'']\<rparr>"
      by blast+
    have "assets = acc1 @ records_by_runs t (run @ [e]) es"
      using loop
    proof (rule Cons.IH)
      show "AssetPath cur1 = staged_last t ''asset'' (run @ [e])"
        using c meta Cons.prems(2) by (simp add: staged_last_snoc)
      show "MetaPath cur1 = staged_last t ''asset.meta'' (run @ [e])"
        using c meta by (simp add: staged_last_snoc)
    qed
    with a meta show ?thesis by simp
  next
    case pathname
    then have pe: "pathname_entry e" by (simp add: pathname_entry_member)
    from step have a: "acc1 = acc @ [cur\<lparr>PathName := Body e\<rparr>]" and c: "cur1 = empty_asset"
      by (auto simp: extract_entry_pathname [OF pe] split: if_splits)
    have rec: "cur\<lparr>PathName := Body e\<rparr> = closing_record t run e"
      using closing_record_current [OF Cons.prems(2,3), of "Body e" "Name e" "Intact e"]
        closing_record_Body [of t run e "Name e" "Intact e"] by simp
    have "assets = acc1 @ records_by_runs t [] es"
      using loop
      by (rule Cons.IH) (simp_all add: c empty_asset_def staged_last_Nil)
    with a rec pathname show ?thesis by simp
  next
    case other
    from extract_entry_member_other [OF step other]
    have a: "acc1 = acc" and c: "cur1 = cur" by blast+
    have "assets = acc1 @ records_by_runs t (run @ [e]) es"
      using loop
    proof (rule Cons.IH)
      show "AssetPath cur1 = staged_last t ''asset'' (run @ [e])"
        using c other Cons.prems(2) by (simp add: staged_last_snoc)
      show "MetaPath cur1 = staged_last t ''asset.meta'' (run @ [e])"
        using c other Cons.prems(3) by (simp add: staged_last_snoc)
    qed
    with a other show ?thesis by simp
  qed
qed

lemma staged_last_tied:
  assumes "list_all (\<lambda>x. segment x = d)
             (filter (\<lambda>x. member_name x = ''asset'' \<or> member_name x = ''asset.meta'') run)"
    and m: "m = ''asset'' \<or> m = ''asset.meta''"
  shows "staged_last t m run = [] \<or> staged_last t m run = filepath_Join [t, d, m]"
proof (cases "filter (\<lambda>e. member_name e = m) run = []")
  case True
  then show ?thesis by (simp add: staged_last_def)
next
  case False
  let ?l = "last (filter (\<lambda>e. member_name e = m) run)"
  from False have "?l \<in> set (filter (\<lambda>e. member_name e = m) run)" by (rule last_in_set)
  then have "?l \<in> set run" and "member_name ?l = m" by simp_all
  with m have "?l \<in> set (filter (\<lambda>x. member_name x = ''asset'' \<or> member_name x = ''asset.meta'') run)"
    by auto
  with assms(1) have "segment ?l = d" by (simp add: list_all_iff)
  with False show ?thesis by (simp add: staged_last_def)
qed

lemma records_by_runs_tied:
  "runs_tied run es \<Longrightarrow>
   list_all2 (\<lambda>r e. staged_for t (segment e) r) (records_by_runs t run es)
     (filter pathname_entry es)"
proof (induction es arbitrary: run)
  case Nil
  then show ?case by simp
next
  case (Cons e es)
  show ?case
  proof (cases "member_name e = ''pathname''")
    case True
    with Cons.prems have l: "list_all (\<lambda>x. segment x = segment e)
        (filter (\<lambda>x. member_name x = ''asset'' \<or> member_name x = ''asset.meta'') run)"
      and r: "runs_tied [] es" by simp_all
    from staged_last_tied [OF l, of "''asset''" t] staged_last_tied [OF l, of "''asset.meta''" t]
    have "staged_for t (segment e) (closing_record t run e)"
      by (simp add: staged_for_def closing_record_def)
    with True Cons.IH [OF r] show ?thesis by (simp add: pathname_entry_member)
  next
    case False
    with Cons.prems have "runs_tied (run @ [e]) es" by simp
    from Cons.IH [OF this] False show ?thesis by (simp add: pathname_entry_member)
  qed
qed

text \<open>
  Claim C3, amended.  For every archive from which \<open>extractTarGz\<close> returns its
  records, the records are those of the runs: the record a \<open>pathname\<close> entry closes
  holds the files staged from the last \<open>asset\<close> and the last \<open>asset.meta\<close> entry read
  since the \<open>pathname\<close> entry before it, whatever the first path segment of these
  entries.  When in every run these entries have the first path segment of the
  \<open>pathname\<close> entry that closes the run, every record holds only staged files of
  the segment of its \<open>pathname\<close> entry.  For every archive, the entries whose name
  has no separator belong to no record: without them the result and the world
  \<open>extractTarGz\<close> leaves are the same.
\<close>

theorem records_hold_the_last_staged_files:
  "(extractTarGz srcFile tempDir (Some a) w = (Inr assets, w') \<longrightarrow>
      assets = records_by_runs tempDir [] (entries a) \<and>
      (runs_tied [] (entries a) \<longrightarrow>
         list_all2 (\<lambda>r e. staged_for tempDir (segment e) r) assets
           (filter pathname_entry (entries a))))
   \<and> extractTarGz srcFile tempDir
         (Some (a\<lparr>entries := filter (\<lambda>e. sep \<in> set (Name e)) (entries a)\<rparr>)) w =
       extractTarGz srcFile tempDir (Some a) w"
proof -
  have "assets = records_by_runs tempDir [] (entries a) \<and>
      (runs_tied [] (entries a) \<longrightarrow>
         list_all2 (\<lambda>r e. staged_for tempDir (segment e) r) assets
           (filter pathname_entry (entries a)))"
    if run: "extractTarGz srcFile tempDir (Some a) w = (Inr assets, w')"
  proof -
    from extractTarGz_Inr [OF run] obtain fs' where
      l: "extract_loop tempDir (entries a) (ending a) (empty_asset, []) (files w) = (Inr assets, fs')"
      by blast
    have "assets = [] @ records_by_runs tempDir [] (entries a)"
      using l by (rule extract_loop_runs) (simp_all add: empty_asset_def staged_last_Nil)
    with records_by_runs_tied [of "[]" "entries a" tempDir] show ?thesis by simp
  qed
  then show ?thesis by (simp add: extractTarGz_filter_sep)
qed

text \<open>
  A run of the theorem of Claim C3: the archive of two groups among a file at the
  root, a directory entry and another member.
\<close>

theorem records_hold_the_last_staged_files_witness:
  "extractTarGz ''rich.unitypackage'' ''tmp'' (Some rich_archive) staging_world =
     (Inr [\<lparr>AssetPath = ''tmp/abc123/asset'', MetaPath = [], PathName = ''Materials/Wood.mat''\<rparr>,
           \<lparr>AssetPath = ''tmp/def456/asset'', MetaPath = ''tmp/def456/asset.meta'',
            PathName = ''Textures/Oak.png''\<rparr>],
      snd (extractTarGz ''rich.unitypackage'' ''tmp'' (Some rich_archive) staging_world))
   \<and> runs_tied [] (entries rich_archive)
   \<and> records_by_runs ''tmp'' [] (entries rich_archive) =
       [\<lparr>AssetPath = ''tmp/abc123/asset'', MetaPath = [], PathName = ''Materials/Wood.mat''\<rparr>,
        \<lparr>AssetPath = ''tmp/def456/asset'', MetaPath = ''tmp/def456/asset.meta'',
         PathName = ''Textures/Oak.png''\<rparr>]
   \<and> list_all2 (\<lambda>r e. staged_for ''tmp'' (segment e) r)
       [\<lparr>AssetPath = ''tmp/abc123/asset'', MetaPath = [], PathName = ''Materials/Wood.mat''\<rparr>,
        \<lparr>AssetPath = ''tmp/def456/asset'', MetaPath = ''tmp/def456/asset.meta'',
         PathName = ''Textures/Oak.png''\<rparr>]
       (filter pathname_entry (entries rich_archive))
   \<and> extractTarGz ''rich.unitypackage'' ''tmp''
         (Some (rich_archive\<lparr>entries :=
            filter (\<lambda>e. sep \<in> set (Name e)) (entries rich_archive)\<rparr>)) staging_world =
       extractTarGz ''rich.unitypackage'' ''tmp'' (Some rich_archive) staging_world"
proof -
  let ?recs = "[\<lparr>AssetPath = ''tmp/abc123/asset'', MetaPath = [], PathName = ''Materials/Wood.mat''\<rparr>,
           \<lparr>AssetPath = ''tmp/def456/asset'', MetaPath = ''tmp/def456/asset.meta'',
            PathName = ''Textures/Oak.png''\<rparr>]"
  have t: "runs_tied [] (entries rich_archive)" by code_simp
  have "fst (extractTarGz ''rich.unitypackage'' ''tmp'' (Some rich_archive) staging_world) = Inr ?recs"
    by code_simp
  then have e: "extractTarGz ''rich.unitypackage'' ''tmp'' (Some rich_archive) staging_world =
     (Inr ?recs, snd (extractTarGz ''rich.unitypackage'' ''tmp'' (Some rich_archive) staging_world))"
    by (metis prod.collapse)
  from records_hold_the_last_staged_files [of "''rich.unitypackage''" "''tmp''" rich_archive
      staging_world ?recs "snd (extractTarGz ''rich.unitypackage'' ''tmp'' (Some rich_archive) staging_world)"]
    e t
  show ?thesis by metis
qed

text \<open>
  Claim C3 as stated fails: in the archive \<open>A/asset\<close>, \<open>B/pathname\<close> the record
  appended at the \<open>pathname\<close> entry of segment \<open>B\<close> holds the file staged from the
  entry of segment \<open>A\<close>.
\<close>

theorem record_of_other_segment_counterexample:
  "fst (extractTarGz ''mixed.unitypackage'' ''tmp'' (Some mixed_archive) (start_world same_volume)) =
     Inr [\<lparr>AssetPath = ''tmp/A/asset'', MetaPath = [], PathName = ''x.txt''\<rparr>]
   \<and> filter pathname_entry (entries mixed_archive) =
       [\<lparr>Name = ''B/pathname'', Body = ''x.txt'', Intact = True\<rparr>]
   \<and> segment \<lparr>Name = ''B/pathname'', Body = ''x.txt'', Intact = True\<rparr> = ''B''
   \<and> filter (\<lambda>e. segment e = ''A'') (entries mixed_archive) =
       [\<lparr>Name = ''A/asset'', Body = ''payload'', Intact = True\<rparr>]
   \<and> filepath_Join [''tmp'', ''A'', ''asset''] = ''tmp/A/asset''
   \<and> \<not> staged_for ''tmp'' ''B'' \<lparr>AssetPath = ''tmp/A/asset'', MetaPath = [], PathName = ''x.txt''\<rparr>"
  by code_simp

section \<open>Resolved paths\<close>


lemma split_from_append_sep:
  "split_from cur (a @ sep # b) = split_from cur a @ split_from [] b"
  by (induction a arbitrary: cur) auto

lemma split_from_plain: "sep \<notin> set a \<Longrightarrow> split_from cur a = [rev cur @ a]"
  by (induction a arbitrary: cur) auto

lemma split_from_pieces:
  "sep \<notin> set cur \<Longrightarrow> \<forall>c\<in>set (split_from cur s). sep \<notin> set c"
proof (induction s arbitrary: cur)
  case Nil
  then show ?case by simp
next
  case (Cons a s)
  show ?case
  proof (cases "a = sep")
    case True
    with Cons.IH [of "[]"] Cons.prems show ?thesis by simp
  next
    case False
    with Cons.IH [of "a # cur"] Cons.prems show ?thesis by simp
  qed
qed

lemma split_sep_pieces: "c \<in> set (split_sep s) \<Longrightarrow> sep \<notin> set c"
  unfolding split_sep_def using split_from_pieces [of "[]" s] by simp

lemma join_sep_snoc: "bs \<noteq> [] \<Longrightarrow> join_sep (bs @ [c]) = join_sep bs @ sep # c"
  by (induction bs rule: join_sep.induct) auto

lemma split_sep_join:
  "cs \<noteq> [] \<Longrightarrow> \<forall>c\<in>set cs. sep \<notin> set c \<Longrightarrow> split_sep (join_sep cs) = cs"
proof (induction cs rule: join_sep.induct)
  case 1
  then show ?case by simp
next
  case (2 x)
  then show ?case by (simp add: split_sep_def split_from_plain)
next
  case (3 x y ys)
  then have "split_from [] (join_sep (y # ys)) = y # ys" by (simp add: split_sep_def)
  with 3 show ?case by (simp add: split_sep_def split_from_append_sep split_from_plain)
qed

lemma elems_append_sep: "elems (a @ sep # b) = elems a @ elems b"
  by (simp add: elems_def split_sep_def split_from_append_sep)

lemma elems_Nil: "elems [] = []"
  by (simp add: elems_def split_sep_def)

lemma elems_ok: "list_all elem_ok (elems p)"
  by (auto simp: elems_def elem_ok_def list_all_iff dest: split_sep_pieces)

lemma elems_join:
  assumes "list_all elem_ok cs"
  shows "elems (join_sep cs) = cs"
proof (cases "cs = []")
  case True
  then show ?thesis by (simp add: elems_Nil)
next
  case False
  with assms have "split_sep (join_sep cs) = cs"
    by (intro split_sep_join) (auto simp: list_all_iff elem_ok_def)
  with assms show ?thesis
    by (auto simp: elems_def list_all_iff elem_ok_def intro!: filter_True)
qed

lemma elems_sep_join:
  assumes "list_all elem_ok cs"
  shows "elems (sep # join_sep cs) = cs"
proof -
  have "elems ([] @ sep # join_sep cs) = elems [] @ elems (join_sep cs)"
    by (rule elems_append_sep)
  with assms show ?thesis by (simp add: elems_Nil elems_join)
qed

lemma dropWhile_append_mem:
  "x \<in> set (dropWhile P bs) \<Longrightarrow> x \<in> set (dropWhile P (bs @ xs))"
  by (induction bs) auto

lemma settled_Nil: "settled r []"
  by (simp add: settled_def)

lemma settled_prefix: "settled r (bs @ xs) \<Longrightarrow> settled r bs"
  unfolding settled_def using dropWhile_append_mem [of "''..''" "\<lambda>c. c = ''..''" bs xs]
  by (auto split: if_splits)

lemma settled_butlast: "settled r cs \<Longrightarrow> settled r (butlast cs)"
  by (cases cs rule: rev_cases) (auto simp: settled_Nil dest: settled_prefix)

lemma join_sep_not_Nil: "c \<noteq> [] \<Longrightarrow> join_sep (c # bs) \<noteq> []"
  by (cases bs) auto

lemma dot_not_sep: "sep \<notin> set ''.''"
  by (simp add: sep_def)

lemma all_dotdot_last:
  "''..'' \<notin> set (dropWhile (\<lambda>c. c = ''..'') (st @ ''..'' # cs)) \<Longrightarrow> list_all (\<lambda>c. c = ''..'') st"
  by (induction st) (auto split: if_splits)

lemma settled_push:
  assumes "settled r st" and "elem_ok c"
  shows "settled r (push_elem r st c)"
proof (cases "c = ''..''")
  case False
  with assms show ?thesis
    by (auto simp: settled_def push_elem_def dropWhile_append list_all_iff split: if_splits)
next
  case True
  show ?thesis
  proof (cases "st \<noteq> [] \<and> last st \<noteq> ''..''")
    case pop: True
    then obtain bs b where st: "st = bs @ [b]" by (metis append_butlast_last_id)
    with assms(1) have "settled r bs"
      using settled_prefix by blast
    with True pop st show ?thesis by (simp add: push_elem_def)
  next
    case keep: False
    show ?thesis
    proof (cases r)
      case True
      with \<open>c = ''..''\<close> keep assms(1) show ?thesis by (auto simp: push_elem_def)
    next
      case False
      from keep assms(1) have "list_all (\<lambda>c. c = ''..'') st"
      proof (cases "st = []")
        case True
        then show ?thesis by simp
      next
        case ne: False
        with keep have l: "last st = ''..''" by simp
        with ne obtain bs where s: "st = bs @ [''..'']"
          by (metis append_butlast_last_id)
        from assms(1) have "''..'' \<notin> set (dropWhile (\<lambda>c. c = ''..'') st)"
          by (simp add: settled_def)
        with s have "list_all (\<lambda>c. c = ''..'') bs"
          using all_dotdot_last [of bs "[]"] by simp
        with s show ?thesis by simp
      qed
      then have "dropWhile (\<lambda>c. c = ''..'') (st @ [''..'']) = []"
        by (simp add: list_all_iff)
      with False \<open>c = ''..''\<close> keep assms show ?thesis
        by (auto simp: settled_def push_elem_def)
    qed
  qed
qed

lemma settled_foldl:
  "settled r st \<Longrightarrow> list_all elem_ok cs \<Longrightarrow> settled r (foldl (push_elem r) st cs)"
  by (induction cs arbitrary: st) (auto simp: settled_push)

lemma settled_parse: "settled (fst (parse p)) (snd (parse p))"
  by (simp add: parse_def settled_foldl settled_Nil elems_ok)

lemma foldl_push_settled:
  "settled r (st @ cs) \<Longrightarrow> foldl (push_elem r) st cs = st @ cs"
proof (induction cs arbitrary: st)
  case Nil
  then show ?case by simp
next
  case (Cons c cs)
  have "push_elem r st c = st @ [c]"
  proof (cases "c = ''..''")
    case False
    then show ?thesis by (simp add: push_elem_def)
  next
    case True
    with Cons.prems have nr: "\<not> r" by (auto simp: settled_def split: if_splits)
    from True Cons.prems have "list_all (\<lambda>c. c = ''..'') st"
      using all_dotdot_last [of st cs] by (simp add: settled_def)
    then have "st = [] \<or> last st = ''..''"
      by (cases st rule: rev_cases) auto
    with True nr show ?thesis by (auto simp: push_elem_def)
  qed
  with Cons.IH [of "st @ [c]"] Cons.prems show ?case by simp
qed

lemma is_rooted_render: "settled r cs \<Longrightarrow> is_rooted (render (r, cs)) = r"
proof (cases cs)
  case Nil
  then show ?thesis by (simp add: render_def is_rooted_def sep_def)
next
  case (Cons c bs)
  assume "settled r cs"
  with Cons have c: "c \<noteq> []" "sep \<notin> set c" by (auto simp: settled_def elem_ok_def)
  then have "hd (join_sep (c # bs)) = hd c" by (cases bs) auto
  moreover from c have "hd c \<noteq> sep" by (cases c) auto
  moreover from c have "join_sep (c # bs) \<noteq> []" by (cases bs) auto
  ultimately show ?thesis using Cons by (auto simp: render_def is_rooted_def)
qed

lemma elems_render: "settled r cs \<Longrightarrow> elems (render (r, cs)) = cs"
proof (cases "cs = []")
  case True
  then show ?thesis by (simp add: render_def elems_def split_sep_def sep_def)
next
  case False
  assume "settled r cs"
  then have "list_all elem_ok cs" by (simp add: settled_def)
  with False show ?thesis by (simp add: render_def elems_join elems_sep_join)
qed

lemma parse_render: "settled r cs \<Longrightarrow> parse (render (r, cs)) = (r, cs)"
  using foldl_push_settled [of r "[]" cs]
  by (simp add: parse_def is_rooted_render elems_render)

lemma parse_Clean: "parse (filepath_Clean p) = parse p"
  using parse_render [OF settled_parse [of p]] by (simp add: filepath_Clean_def)

lemma render_not_Nil: "settled r cs \<Longrightarrow> render (r, cs) \<noteq> []"
  by (cases cs) (auto simp: render_def settled_def elem_ok_def join_sep_not_Nil)

lemma Clean_not_Nil: "filepath_Clean p \<noteq> []"
  using render_not_Nil [OF settled_parse [of p]] by (simp add: filepath_Clean_def)

lemma is_rooted_append: "t \<noteq> [] \<Longrightarrow> is_rooted (t @ x) = is_rooted t"
  by (simp add: is_rooted_def)

lemma plain_elem_ok: "plain c \<Longrightarrow> elem_ok c"
  by (simp add: plain_def elem_ok_def)

lemma elems_plain: "plain c \<Longrightarrow> elems c = [c]"
  by (simp add: elems_def split_sep_def split_from_plain plain_def)

lemma push_plain: "plain c \<Longrightarrow> push_elem r st c = st @ [c]"
  by (simp add: push_elem_def plain_def)

lemma parse_extend:
  assumes "t \<noteq> []" and "plain g" and "plain n"
  shows "parse (t @ sep # g @ sep # n) = (fst (parse t), snd (parse t) @ [g, n])"
proof -
  have "elems (t @ sep # g @ sep # n) = elems t @ [g, n]"
    using assms by (simp add: elems_append_sep elems_plain)
  with assms show ?thesis
    by (simp add: parse_def is_rooted_append push_plain)
qed

lemma parse_Join3:
  assumes "t \<noteq> []" and "plain g" and "plain n"
  shows "parse (filepath_Join [t, g, n]) = (fst (parse t), snd (parse t) @ [g, n])"
  using assms parse_extend [OF assms] by (simp add: filepath_Join_def parse_Clean)

lemma cut_last_piece:
  assumes "sep \<notin> set c"
  shows "rev (dropWhile (\<lambda>x. x \<noteq> sep) (rev (a @ sep # c))) = a @ [sep]"
proof -
  have "dropWhile (\<lambda>x. x \<noteq> sep) (rev c @ sep # rev a) =
        dropWhile (\<lambda>x. x \<noteq> sep) (sep # rev a)"
    using assms by (intro dropWhile_append2) auto
  then show ?thesis by simp
qed

lemma cut_only_piece:
  "sep \<notin> set c \<Longrightarrow> rev (dropWhile (\<lambda>x. x \<noteq> sep) (rev c)) = []"
  by (auto simp: dropWhile_eq_Nil_conv)

lemma parse_trailing_sep: "a \<noteq> [] \<Longrightarrow> parse (a @ [sep]) = parse a"
proof -
  assume a: "a \<noteq> []"
  have "elems (a @ sep # []) = elems a @ elems []" by (rule elems_append_sep)
  with a show ?thesis by (simp add: parse_def elems_Nil is_rooted_append)
qed

lemma parse_Nil: "parse [] = (False, [])"
  by (simp add: parse_def is_rooted_def elems_Nil)

lemma parse_sep: "parse [sep] = (True, [])"
  by (simp add: parse_def is_rooted_def elems_def split_sep_def)

lemma Dir_no_sep:
  assumes "sep \<notin> set c"
  shows "filepath_Dir c = filepath_Clean []"
  by (simp only: filepath_Dir_def cut_only_piece [OF assms])

lemma Dir_cut:
  assumes "sep \<notin> set c"
  shows "filepath_Dir (a @ sep # c) = filepath_Clean (a @ [sep])"
  by (simp only: filepath_Dir_def cut_last_piece [OF assms])

lemma parse_Dir_render:
  assumes "settled r cs"
  shows "parse (filepath_Dir (render (r, cs))) = (r, butlast cs)"
proof (cases cs rule: rev_cases)
  case Nil
  show ?thesis
  proof (cases r)
    case True
    have "filepath_Dir ([] @ sep # []) = filepath_Clean ([] @ [sep])"
      by (rule Dir_cut) simp
    with True Nil show ?thesis by (simp add: render_def parse_Clean parse_sep)
  next
    case False
    with Nil show ?thesis
      by (simp add: render_def Dir_no_sep [OF dot_not_sep] parse_Clean parse_Nil)
  qed
next
  case (snoc bs c)
  with assms have c: "sep \<notin> set c" and sb: "settled r bs"
    using settled_prefix [of r bs "[c]"] by (auto simp: settled_def elem_ok_def)
  show ?thesis
  proof (cases "bs = []")
    case True
    show ?thesis
    proof (cases r)
      case r: True
      have "filepath_Dir ([] @ sep # c) = filepath_Clean ([] @ [sep])"
        using c by (rule Dir_cut)
      with r True snoc show ?thesis by (simp add: render_def parse_Clean parse_sep)
    next
      case False
      with True snoc show ?thesis
        by (simp add: render_def Dir_no_sep [OF c] parse_Clean parse_Nil)
    qed
  next
    case False
    then have j: "join_sep (bs @ [c]) = join_sep bs @ sep # c" by (rule join_sep_snoc)
    let ?pre = "if r then [sep] else []"
    have r1: "render (r, bs @ [c]) = (?pre @ join_sep bs) @ sep # c"
      using j by (simp add: render_def)
    have r2: "render (r, bs) = ?pre @ join_sep bs"
      using False by (simp add: render_def)
    have ne: "?pre @ join_sep bs \<noteq> []"
      using render_not_Nil [OF sb] r2 by simp
    have "filepath_Dir (render (r, bs @ [c])) = filepath_Clean ((?pre @ join_sep bs) @ [sep])"
      unfolding r1 using c by (rule Dir_cut)
    then have "parse (filepath_Dir (render (r, bs @ [c]))) = parse (?pre @ join_sep bs)"
      using parse_trailing_sep [OF ne] by (simp add: parse_Clean)
    also have "\<dots> = (r, bs)" using parse_render [OF sb] r2 by simp
    finally show ?thesis using snoc by simp
  qed
qed

lemma parse_Dir_Clean: "parse (filepath_Dir (filepath_Clean p)) = parent (parse p)"
  using parse_Dir_render [OF settled_parse [of p]]
  by (simp add: filepath_Clean_def parent_def)

section \<open>Extracting a well-formed archive\<close>

lemma SplitN2_joined:
  assumes "sep \<notin> set g"
  shows "SplitN2 (g @ sep # n) = [g, n]"
proof -
  have "takeWhile (\<lambda>c. c \<noteq> sep) (g @ sep # n) = g @ takeWhile (\<lambda>c. c \<noteq> sep) (sep # n)"
    using assms by (intro takeWhile_append2) auto
  moreover
  have "dropWhile (\<lambda>c. c \<noteq> sep) (g @ sep # n) = dropWhile (\<lambda>c. c \<noteq> sep) (sep # n)"
    using assms by (intro dropWhile_append2) auto
  ultimately show ?thesis by (simp add: SplitN2_def)
qed

lemma plain_members: "plain ''asset''" "plain ''asset.meta''"
  by (simp_all add: plain_def sep_def)

lemma Join3_Clean: "t \<noteq> [] \<Longrightarrow> filepath_Join [t, g, n] = filepath_Clean (t @ sep # g @ sep # n)"
  by (simp add: filepath_Join_def)

lemma Dir_not_Nil: "filepath_Dir p \<noteq> []"
  by (simp add: filepath_Dir_def Clean_not_Nil)

lemma lookup_named: "c \<in> set cs \<Longrightarrow> c \<noteq> ''..'' \<Longrightarrow> lookup fs (r, cs) = fs (r, cs)"
  by (auto simp: lookup_def list_all_iff)

lemma mkdir_chain_frame:
  "mkdir_chain r pre cs fs = Inr fs' \<Longrightarrow> fs' q \<noteq> fs q \<Longrightarrow> under q (r, pre @ cs)"
proof (induction cs arbitrary: pre fs)
  case Nil
  then show ?case by simp
next
  case (Cons c cs)
  show ?case
  proof (cases "lookup fs (r, pre @ [c])")
    case None
    with Cons.prems have m: "mkdir_chain r (pre @ [c]) cs (fs((r, pre @ [c]) \<mapsto> Dir)) = Inr fs'"
      by simp
    show ?thesis
    proof (cases "fs' q = (fs((r, pre @ [c]) \<mapsto> Dir)) q")
      case True
      with Cons.prems(2) have "q = (r, pre @ [c])" by (auto split: if_splits)
      then show ?thesis by (simp add: under_def)
    next
      case False
      from Cons.IH [OF m False] show ?thesis by simp
    qed
  next
    case (Some n)
    with Cons.prems have "mkdir_chain r (pre @ [c]) cs fs = Inr fs'"
      by (cases n) auto
    from Cons.IH [OF this Cons.prems(2)] show ?thesis by simp
  qed
qed

lemma mkdir_chain_through:
  "list_all (\<lambda>p. lookup fs (r, pre @ p) = Some Dir) (prefixes cs) \<Longrightarrow>
   mkdir_chain r pre (cs @ rest) fs = mkdir_chain r (pre @ cs) rest fs"
proof (induction cs arbitrary: pre)
  case Nil
  then show ?case by simp
next
  case (Cons c cs)
  from Cons.prems have h: "lookup fs (r, pre @ [c]) = Some Dir"
    and t: "list_all (\<lambda>p. lookup fs (r, (pre @ [c]) @ p) = Some Dir) (prefixes cs)"
    by (auto simp: list_all_iff)
  from Cons.IH [OF t] h show ?case by simp
qed

lemma dirs_kept:
  assumes "list_all (\<lambda>p. lookup fs (r, p) = Some Dir) (prefixes ts)"
    and "\<forall>p. prefix p ts \<longrightarrow> fs' (r, p) = fs (r, p)"
  shows "list_all (\<lambda>p. lookup fs' (r, p) = Some Dir) (prefixes ts)"
  using assms by (auto simp: list_all_iff lookup_def in_set_prefixes split: if_splits)

lemma pathname_member:
  assumes "plain g"
  shows "extract_entry t \<lparr>Name = g @ sep # ''pathname'', Body = b, Intact = True\<rparr> (cur, acc) fs =
           (Inr (empty_asset, acc @ [cur\<lparr>PathName := b\<rparr>]), fs)"
proof -
  from assms have "SplitN2 (g @ sep # ''pathname'') = [g, ''pathname'']"
    by (intro SplitN2_joined) (simp add: plain_def)
  then show ?thesis by (simp add: extract_entry_def)
qed

lemma slash_names:
  "g @ ''/asset'' = g @ sep # ''asset''"
  "g @ ''/asset.meta'' = g @ sep # ''asset.meta''"
  "g @ ''/pathname'' = g @ sep # ''pathname''"
  by (simp_all add: sep_def)

lemma stage_frame: "\<not> under (fst T, snd T @ [gid g]) q \<Longrightarrow> stage T g fs q = fs q"
  by (auto simp: stage_def under_def split: option.splits)

lemma under_one_group:
  "under (r, ts @ [a]) q \<Longrightarrow> under (r, ts @ [b]) q \<Longrightarrow> a = b"
  by (auto simp: under_def prefix_def)

lemma fold_stage_frame:
  "\<forall>g\<in>set gs. \<not> under (fst T, snd T @ [gid g]) q \<Longrightarrow> fold (stage T) gs fs q = fs q"
  by (induction gs arbitrary: fs) (auto simp: stage_frame)

lemma stage_values:
  "stage (r, ts) g fs (r, ts @ [gid g, ''asset'']) = Some (File (payload g))"
  "sidecar g = Some m \<Longrightarrow> stage (r, ts) g fs (r, ts @ [gid g, ''asset.meta'']) = Some (File m)"
  by (auto simp: stage_def split: option.splits)

lemma fold_stage_values:
  assumes "distinct (map gid gs)" and "g \<in> set gs"
  shows "fold (stage (r, ts)) gs fs (r, ts @ [gid g, ''asset'']) = Some (File (payload g))
       \<and> (\<forall>m. sidecar g = Some m \<longrightarrow>
            fold (stage (r, ts)) gs fs (r, ts @ [gid g, ''asset.meta'']) = Some (File m))"
  using assms
proof (induction gs arbitrary: fs)
  case Nil
  then show ?case by simp
next
  case (Cons h gs)
  show ?case
  proof (cases "g \<in> set gs")
    case True
    with Cons show ?thesis by simp
  next
    case False
    with Cons.prems have gh: "g = h" by simp
    have nu: "\<forall>k\<in>set gs. \<not> under (fst (r, ts), snd (r, ts) @ [gid k]) (r, ts @ [gid g, n])" for n
    proof
      fix k assume k: "k \<in> set gs"
      then have "gid k \<in> gid ` set gs" by simp
      with Cons.prems(1) gh have "gid k \<noteq> gid g" by auto
      then show "\<not> under (fst (r, ts), snd (r, ts) @ [gid k]) (r, ts @ [gid g, n])"
        by (auto simp: under_def)
    qed
    from fold_stage_frame [OF nu] gh show ?thesis
      by (simp add: stage_values)
  qed
qed


lemma extract_entry_irrelevant: "\<not> relevant e \<Longrightarrow> extract_entry t e st fs = (Inr st, fs)"
proof (cases "Name e" rule: SplitN2_cases)
  case (two d f)
  assume "\<not> relevant e"
  with two SplitN2_two [OF two] show ?thesis
    by (simp add: relevant_def extract_entry_def)
next
  case one
  then show ?thesis by (simp add: extract_entry_def)
qed

lemma extract_loop_relevant:
  "extract_loop t (filter relevant es) fin st fs = extract_loop t es fin st fs"
  by (induction es arbitrary: st fs)
     (auto simp: extract_entry_irrelevant split: prod.splits sum.splits)

lemma extractTarGz_relevant:
  "extractTarGz srcFile t (Some (a\<lparr>entries := filter relevant (entries a)\<rparr>)) w =
   extractTarGz srcFile t (Some a) w"
  by (simp add: extractTarGz_def extract_loop_relevant)

lemma main_relevant:
  "main args (Some (a\<lparr>entries := filter relevant (entries a)\<rparr>)) rnd w = main args (Some a) rnd w"
  by (simp only: main_def extractTarGz_relevant)

lemma stage_member:
  assumes t: "t \<noteq> []" and pt: "parse t = (r, ts)" and g: "plain g"
    and n: "n = ''asset'' \<or> n = ''asset.meta''"
    and dirs: "list_all (\<lambda>p. lookup fs (r, p) = Some Dir) (prefixes ts)"
    and d: "fs (r, ts @ [g]) = None \<or> fs (r, ts @ [g]) = Some Dir"
    and a: "fs (r, ts @ [g, n]) \<noteq> Some Dir"
  shows "extract_entry t \<lparr>Name = g @ sep # n, Body = b, Intact = True\<rparr> (cur, acc) fs =
     (Inr (if n = ''asset'' then cur\<lparr>AssetPath := filepath_Join [t, g, n]\<rparr>
           else cur\<lparr>MetaPath := filepath_Join [t, g, n]\<rparr>, acc),
      fs((r, ts @ [g]) \<mapsto> Dir, (r, ts @ [g, n]) \<mapsto> File b))"
proof -
  let ?dest = "filepath_Join [t, g, n]"
  let ?D = "(r, ts @ [g])"
  let ?A = "(r, ts @ [g, n])"
  from n have pn: "plain n" using plain_members by auto
  from g have sp: "SplitN2 (g @ sep # n) = [g, n]"
    by (intro SplitN2_joined) (simp add: plain_def)
  have pd: "parse ?dest = ?A" using parse_Join3 [OF t g pn] pt by simp
  have dne: "?dest \<noteq> []" using Join3_Clean [OF t] Clean_not_Nil by simp
  have "parse (filepath_Dir ?dest) = parent (parse (t @ sep # g @ sep # n))"
    using Join3_Clean [OF t] parse_Dir_Clean by simp
  also have "\<dots> = ?D" using parse_extend [OF t g pn] pt by (simp add: parent_def butlast_append)
  finally have pdir: "parse (filepath_Dir ?dest) = ?D" .
  from g have gd: "g \<noteq> ''..''" by (simp add: plain_def)
  have lD: "\<And>f. lookup f ?D = f ?D" using gd by (intro lookup_named [of g]) auto
  have lA: "\<And>f. lookup f ?A = f ?A" using gd by (intro lookup_named [of g]) auto
  have "mkdir_chain r [] (ts @ [g]) fs = mkdir_chain r ([] @ ts) [g] fs"
    using dirs by (intro mkdir_chain_through) simp
  also have "\<dots> = Inr (fs(?D \<mapsto> Dir))"
    using d lD [of fs] by (auto simp: map_upd_triv)
  finally have mk: "os_MkdirAll (filepath_Dir ?dest) fs = Inr (fs(?D \<mapsto> Dir))"
    using pdir Dir_not_Nil by (simp add: os_MkdirAll_def)
  have cr: "os_Create ?dest (fs(?D \<mapsto> Dir)) = Inr (fs(?D \<mapsto> Dir, ?A \<mapsto> File []))"
    using dne pd a lA [of "fs(?D \<mapsto> Dir)"] lD [of "fs(?D \<mapsto> Dir)"]
    by (auto simp: os_Create_def parent_def butlast_append split: option.splits node.splits)
  have wr: "write_bytes ?dest b (fs(?D \<mapsto> Dir, ?A \<mapsto> File [])) = fs(?D \<mapsto> Dir, ?A \<mapsto> File b)"
    using pd by (simp add: write_bytes_def)
  from n show ?thesis
  proof
    assume "n = ''asset''"
    with sp mk cr wr show ?thesis by (simp add: extract_entry_def Let_def)
  next
    assume "n = ''asset.meta''"
    with sp mk cr wr show ?thesis by (simp add: extract_entry_def Let_def)
  qed
qed

lemma stage_block:
  assumes t: "t \<noteq> []" and pt: "parse t = (r, ts)" and g: "plain (gid g)"
    and dirs: "list_all (\<lambda>p. lookup fs (r, p) = Some Dir) (prefixes ts)"
    and cl: "clear r ts g fs"
    and b: "b \<in> set (group_layouts g)"
  shows "extract_loop t (b @ rest) fin (empty_asset, acc) fs =
         extract_loop t rest fin (empty_asset, acc @ [record_for t g]) (stage (r, ts) g fs)"
proof -
  let ?D = "(r, ts @ [gid g])"
  let ?A = "(r, ts @ [gid g, ''asset''])"
  let ?M = "(r, ts @ [gid g, ''asset.meta''])"
  from cl have fD: "fs ?D = None \<or> fs ?D = Some Dir" and fA: "fs ?A \<noteq> Some Dir"
    and fM: "fs ?M \<noteq> Some Dir"
    by (simp_all add: clear_def)
  have keep: "list_all (\<lambda>p. lookup (fs(?D \<mapsto> Dir, k \<mapsto> v)) (r, p) = Some Dir) (prefixes ts)"
    if "k = ?A \<or> k = ?M" for k v
    using dirs by (rule dirs_kept) (use that in \<open>auto dest: prefix_length_le\<close>)
  show ?thesis
  proof (cases "sidecar g")
    case None
    have e1: "extract_entry t \<lparr>Name = gid g @ sep # ''asset'', Body = payload g, Intact = True\<rparr>
              (empty_asset, acc) fs =
            (Inr (empty_asset\<lparr>AssetPath := filepath_Join [t, gid g, ''asset'']\<rparr>, acc),
             fs(?D \<mapsto> Dir, ?A \<mapsto> File (payload g)))"
      using stage_member [OF t pt g _ dirs fD fA] by simp
    from None b have "b = [asset_of g, pathname_of g]" by (simp add: group_layouts_def)
    with None e1 pathname_member [OF g] show ?thesis
      by (simp add: asset_of_def pathname_of_def slash_names record_for_def stage_def
          empty_asset_def)
  next
    case (Some m)
    from Some b consider (asset_first) "b = [asset_of g, meta_of g m, pathname_of g]"
      | (meta_first) "b = [meta_of g m, asset_of g, pathname_of g]"
      by (auto simp: group_layouts_def)
    then show ?thesis
    proof cases
      case asset_first
      let ?fs1 = "fs(?D \<mapsto> Dir, ?A \<mapsto> File (payload g))"
      have e1: "extract_entry t \<lparr>Name = gid g @ sep # ''asset'', Body = payload g, Intact = True\<rparr>
                (empty_asset, acc) fs =
              (Inr (empty_asset\<lparr>AssetPath := filepath_Join [t, gid g, ''asset'']\<rparr>, acc), ?fs1)"
        using stage_member [OF t pt g _ dirs fD fA] by simp
      have e2: "extract_entry t \<lparr>Name = gid g @ sep # ''asset.meta'', Body = m, Intact = True\<rparr>
                  (empty_asset\<lparr>AssetPath := filepath_Join [t, gid g, ''asset'']\<rparr>, acc) ?fs1 =
                (Inr (empty_asset\<lparr>AssetPath := filepath_Join [t, gid g, ''asset''],
                        MetaPath := filepath_Join [t, gid g, ''asset.meta'']\<rparr>, acc),
                 ?fs1(?D \<mapsto> Dir, ?M \<mapsto> File m))"
        using stage_member [OF t pt g _ keep, of "''asset.meta''" ?A "File (payload g)" m] fM
        by simp
      have "?fs1(?D \<mapsto> Dir, ?M \<mapsto> File m) = stage (r, ts) g fs"
        using Some by (auto simp: stage_def fun_eq_iff)
      with Some asset_first e1 e2 pathname_member [OF g] show ?thesis
        by (simp add: asset_of_def meta_of_def pathname_of_def slash_names record_for_def
            empty_asset_def)
    next
      case meta_first
      let ?fs1 = "fs(?D \<mapsto> Dir, ?M \<mapsto> File m)"
      have e1: "extract_entry t \<lparr>Name = gid g @ sep # ''asset.meta'', Body = m, Intact = True\<rparr>
                (empty_asset, acc) fs =
              (Inr (empty_asset\<lparr>MetaPath := filepath_Join [t, gid g, ''asset.meta'']\<rparr>, acc), ?fs1)"
        using stage_member [OF t pt g _ dirs fD fM] by simp
      have e2: "extract_entry t \<lparr>Name = gid g @ sep # ''asset'', Body = payload g, Intact = True\<rparr>
                  (empty_asset\<lparr>MetaPath := filepath_Join [t, gid g, ''asset.meta'']\<rparr>, acc) ?fs1 =
                (Inr (empty_asset\<lparr>MetaPath := filepath_Join [t, gid g, ''asset.meta''],
                        AssetPath := filepath_Join [t, gid g, ''asset'']\<rparr>, acc),
                 ?fs1(?D \<mapsto> Dir, ?A \<mapsto> File (payload g)))"
        using stage_member [OF t pt g _ keep, of "''asset''" ?M "File m" "payload g"] fA
        by simp
      have "?fs1(?D \<mapsto> Dir, ?A \<mapsto> File (payload g)) = stage (r, ts) g fs"
        using Some by (auto simp: stage_def fun_eq_iff)
      with Some meta_first e1 e2 pathname_member [OF g] show ?thesis
        by (simp add: asset_of_def meta_of_def pathname_of_def slash_names record_for_def
            empty_asset_def)
    qed
  qed
qed

lemma grouped_Cons:
  assumes "grouped es (g # gs)"
  obtains b rest where "b \<in> set (group_layouts g)" "es = b @ rest" "grouped rest gs"
proof -
  from assms obtain b where b: "b \<in> set (group_layouts g)" "take (length b) es = b"
    "grouped (drop (length b) es) gs"
    by (auto simp: list_ex_iff)
  have "es = take (length b) es @ drop (length b) es" by simp
  with b have "es = b @ drop (length b) es" by simp
  with b that show ?thesis by blast
qed

lemma clear_stage_other:
  assumes "gid h \<noteq> gid g" and "clear r ts h fs"
  shows "clear r ts h (stage (r, ts) g fs)"
proof -
  have "stage (r, ts) g fs (r, ts @ gid h # x) = fs (r, ts @ gid h # x)" for x
    using assms(1) by (intro stage_frame) (auto simp: under_def)
  from this [of "[]"] this [of "[''asset'']"] this [of "[''asset.meta'']"] assms(2)
  show ?thesis by (simp add: clear_def)
qed

lemma extract_grouped:
  assumes t: "t \<noteq> []" and pt: "parse t = (r, ts)"
  shows "grouped es gs \<Longrightarrow> distinct (map gid gs) \<Longrightarrow> \<forall>g\<in>set gs. plain (gid g) \<Longrightarrow>
     list_all (\<lambda>p. lookup fs (r, p) = Some Dir) (prefixes ts) \<Longrightarrow>
     \<forall>g\<in>set gs. clear r ts g fs \<Longrightarrow>
     extract_loop t es End_of_archive (empty_asset, acc) fs =
       (Inr (acc @ map (record_for t) gs), fold (stage (r, ts)) gs fs)"
proof (induction gs arbitrary: es acc fs)
  case Nil
  then show ?case by simp
next
  case (Cons g gs)
  from Cons.prems(1) obtain b rest where b: "b \<in> set (group_layouts g)" and es: "es = b @ rest"
    and gr: "grouped rest gs" by (rule grouped_Cons)
  let ?fs1 = "stage (r, ts) g fs"
  from Cons.prems have pg: "plain (gid g)" and cg: "clear r ts g fs" by auto
  have step: "extract_loop t (b @ rest) End_of_archive (empty_asset, acc) fs =
              extract_loop t rest End_of_archive (empty_asset, acc @ [record_for t g]) ?fs1"
    using stage_block [OF t pt pg Cons.prems(4) cg b] .
  have dirs1: "list_all (\<lambda>p. lookup ?fs1 (r, p) = Some Dir) (prefixes ts)"
    using Cons.prems(4)
  proof (rule dirs_kept)
    show "\<forall>p. prefix p ts \<longrightarrow> ?fs1 (r, p) = fs (r, p)"
    proof (intro allI impI)
      fix p assume "prefix p ts"
      then have "\<not> under (r, ts @ [gid g]) (r, p)"
        by (auto simp: under_def dest!: prefix_length_le)
      then show "?fs1 (r, p) = fs (r, p)" using stage_frame [of "(r, ts)"] by simp
    qed
  qed
  have clear1: "\<forall>h\<in>set gs. clear r ts h ?fs1"
  proof
    fix h assume h: "h \<in> set gs"
    then have "gid h \<in> gid ` set gs" by simp
    with Cons.prems(2) have "gid h \<noteq> gid g" by auto
    moreover from h Cons.prems(5) have "clear r ts h fs" by simp
    ultimately show "clear r ts h ?fs1" by (rule clear_stage_other)
  qed
  from Cons.prems have d: "distinct (map gid gs)" and p: "\<forall>g\<in>set gs. plain (gid g)" by auto
  from Cons.IH [OF gr d p dirs1 clear1, of "acc @ [record_for t g]"] step es
  show ?case by simp
qed

lemma mkdir_chain_append:
  "mkdir_chain r pre (xs @ ys) fs =
     (case mkdir_chain r pre xs fs of
        Inl e \<Rightarrow> Inl e
      | Inr fs1 \<Rightarrow> mkdir_chain r (pre @ xs) ys fs1)"
  by (induction xs arbitrary: pre fs) (auto split: option.splits node.splits sum.splits)

lemma mkdir_chain_dirs:
  "mkdir_chain r pre cs fs = Inr fs' \<Longrightarrow> prefix p cs \<Longrightarrow> p \<noteq> [] \<Longrightarrow>
   lookup fs' (r, pre @ p) = Some Dir"
proof (induction cs arbitrary: pre fs p)
  case Nil
  then show ?case by simp
next
  case (Cons c cs)
  from Cons.prems(2,3) obtain p' where p: "p = c # p'" and pp: "prefix p' cs"
    by (cases p) auto
  let ?fs1 = "case lookup fs (r, pre @ [c]) of None \<Rightarrow> fs((r, pre @ [c]) \<mapsto> Dir) | Some n \<Rightarrow> fs"
  from Cons.prems(1) have m: "mkdir_chain r (pre @ [c]) cs ?fs1 = Inr fs'"
    and nf: "lookup fs (r, pre @ [c]) = None \<or> lookup fs (r, pre @ [c]) = Some Dir"
    by (auto split: option.splits node.splits)
  show ?case
  proof (cases "p' = []")
    case True
    from nf have "lookup ?fs1 (r, pre @ [c]) = Some Dir"
      by (auto simp: lookup_def split: if_splits)
    from adds_lookup [OF mkdir_chain_adds [OF m] this] p True show ?thesis by simp
  next
    case False
    from Cons.IH [OF m pp False] p show ?thesis by simp
  qed
qed

lemma mkdir_chain_idem:
  assumes "mkdir_chain r [] cs fs = Inr fs'"
  shows "mkdir_chain r [] cs fs' = Inr fs'"
proof -
  have "list_all (\<lambda>p. lookup fs' (r, [] @ p) = Some Dir) (prefixes cs)"
    unfolding list_all_iff
  proof
    fix p assume "p \<in> set (prefixes cs)"
    then have pc: "prefix p cs" by (simp add: in_set_prefixes)
    show "lookup fs' (r, [] @ p) = Some Dir"
    proof (cases "p = []")
      case True
      then show ?thesis by (simp add: lookup_def)
    next
      case False
      from mkdir_chain_dirs [OF assms pc False] show ?thesis by simp
    qed
  qed
  from mkdir_chain_through [OF this, of "[]"] show ?thesis by simp
qed

lemma mkdir_chain_open:
  "\<forall>p. prefix p cs \<and> p \<noteq> [] \<longrightarrow>
     lookup fs (r, pre @ p) = None \<or> lookup fs (r, pre @ p) = Some Dir \<Longrightarrow>
   \<exists>fs'. mkdir_chain r pre cs fs = Inr fs'"
proof (induction cs arbitrary: pre fs)
  case Nil
  then show ?case by simp
next
  case (Cons c cs)
  from Cons.prems have nf: "lookup fs (r, pre @ [c]) = None \<or> lookup fs (r, pre @ [c]) = Some Dir"
    by (metis Cons_prefix_Cons Nil_prefix list.distinct(1))
  have rest: "\<forall>p. prefix p cs \<and> p \<noteq> [] \<longrightarrow>
      lookup fs (r, (pre @ [c]) @ p) = None \<or> lookup fs (r, (pre @ [c]) @ p) = Some Dir"
  proof (intro allI impI)
    fix p assume "prefix p cs \<and> p \<noteq> []"
    then have "prefix (c # p) (c # cs) \<and> c # p \<noteq> []" by simp
    with Cons.prems have "lookup fs (r, pre @ c # p) = None \<or> lookup fs (r, pre @ c # p) = Some Dir"
      by blast
    then show "lookup fs (r, (pre @ [c]) @ p) = None \<or> lookup fs (r, (pre @ [c]) @ p) = Some Dir"
      by simp
  qed
  from nf show ?case
  proof
    assume n: "lookup fs (r, pre @ [c]) = None"
    have "\<forall>p. prefix p cs \<and> p \<noteq> [] \<longrightarrow>
      lookup (fs((r, pre @ [c]) \<mapsto> Dir)) (r, (pre @ [c]) @ p) = None \<or>
      lookup (fs((r, pre @ [c]) \<mapsto> Dir)) (r, (pre @ [c]) @ p) = Some Dir"
      using rest by (auto simp: lookup_def)
    from Cons.IH [OF this] obtain fs' where
      "mkdir_chain r (pre @ [c]) cs (fs((r, pre @ [c]) \<mapsto> Dir)) = Inr fs'" by blast
    with n have "mkdir_chain r pre (c # cs) fs = Inr fs'" by simp
    then show ?thesis by blast
  next
    assume "lookup fs (r, pre @ [c]) = Some Dir"
    with Cons.IH [OF rest] show ?thesis by simp
  qed
qed

lemma mkdir_chain_premade:
  assumes "mkdir_chain r [] ts fs = Inr fs0"
  shows "mkdir_chain r [] (ts @ rest) fs = mkdir_chain r [] (ts @ rest) fs0"
  using assms mkdir_chain_idem [OF assms] by (simp add: mkdir_chain_append)

lemma staged_paths:
  assumes t: "t \<noteq> []" and pt: "parse t = (r, ts)" and g: "plain g"
    and n: "n = ''asset'' \<or> n = ''asset.meta''"
  shows "parse (filepath_Join [t, g, n]) = (r, ts @ [g, n])"
    and "parse (filepath_Dir (filepath_Join [t, g, n])) = (r, ts @ [g])"
proof -
  from n have pn: "plain n" using plain_members by auto
  show "parse (filepath_Join [t, g, n]) = (r, ts @ [g, n])"
    using parse_Join3 [OF t g pn] pt by simp
  have "parse (filepath_Dir (filepath_Join [t, g, n])) = parent (parse (t @ sep # g @ sep # n))"
    using Join3_Clean [OF t] parse_Dir_Clean by simp
  also have "\<dots> = (r, ts @ [g])"
    using parse_extend [OF t g pn] pt by (simp add: parent_def butlast_append)
  finally show "parse (filepath_Dir (filepath_Join [t, g, n])) = (r, ts @ [g])" .
qed

lemma extract_entry_premade:
  assumes t: "t \<noteq> []" and pt: "parse t = (r, ts)" and g: "plain g"
    and n: "n = ''asset'' \<or> n = ''asset.meta''"
    and mk: "mkdir_chain r [] ts fs = Inr fs0"
    and ok: "extract_entry t \<lparr>Name = g @ sep # n, Body = b, Intact = i\<rparr> st fs0 = (Inr x, fs')"
  shows "extract_entry t \<lparr>Name = g @ sep # n, Body = b, Intact = i\<rparr> st fs = (Inr x, fs')"
proof -
  let ?dest = "filepath_Join [t, g, n]"
  from g have sp: "SplitN2 (g @ sep # n) = [g, n]"
    by (intro SplitN2_joined) (simp add: plain_def)
  have "os_MkdirAll (filepath_Dir ?dest) fs = mkdir_chain r [] (ts @ [g]) fs"
    using staged_paths(2) [OF t pt g n] Dir_not_Nil by (simp add: os_MkdirAll_def)
  also have "\<dots> = mkdir_chain r [] (ts @ [g]) fs0" using mk by (rule mkdir_chain_premade)
  also have "\<dots> = os_MkdirAll (filepath_Dir ?dest) fs0"
    using staged_paths(2) [OF t pt g n] Dir_not_Nil by (simp add: os_MkdirAll_def)
  finally have eq: "os_MkdirAll (filepath_Dir ?dest) fs = os_MkdirAll (filepath_Dir ?dest) fs0" .
  from n show ?thesis
  proof
    assume "n = ''asset''"
    with ok sp eq show ?thesis
      by (auto simp: extract_entry_def Let_def split: sum.splits if_splits)
  next
    assume "n = ''asset.meta''"
    with ok sp eq show ?thesis
      by (auto simp: extract_entry_def Let_def split: sum.splits if_splits)
  qed
qed

lemma block_premade:
  assumes t: "t \<noteq> []" and pt: "parse t = (r, ts)" and g: "plain (gid g)"
    and mk: "mkdir_chain r [] ts fs = Inr fs0"
    and dirs: "list_all (\<lambda>p. lookup fs0 (r, p) = Some Dir) (prefixes ts)"
    and cl: "clear r ts g fs0"
    and b: "b \<in> set (group_layouts g)"
  shows "extract_loop t (b @ rest) fin (cur, acc) fs = extract_loop t (b @ rest) fin (cur, acc) fs0"
proof -
  from cl have fD: "fs0 (r, ts @ [gid g]) = None \<or> fs0 (r, ts @ [gid g]) = Some Dir"
    and fA: "fs0 (r, ts @ [gid g, ''asset'']) \<noteq> Some Dir"
    and fM: "fs0 (r, ts @ [gid g, ''asset.meta'']) \<noteq> Some Dir"
    by (simp_all add: clear_def)
  from b obtain n c b' where bb: "b = \<lparr>Name = gid g @ sep # n, Body = c, Intact = True\<rparr> # b'"
    and n: "n = ''asset'' \<or> n = ''asset.meta''"
    by (auto simp: group_layouts_def asset_of_def meta_of_def slash_names split: option.splits)
  have fN: "fs0 (r, ts @ [gid g, n]) \<noteq> Some Dir" using n fA fM by auto
  from stage_member [OF t pt g n dirs fD fN, of c cur acc] obtain x fs' where
    ok: "extract_entry t \<lparr>Name = gid g @ sep # n, Body = c, Intact = True\<rparr> (cur, acc) fs0 =
           (Inr x, fs')" by blast
  from extract_entry_premade [OF t pt g n mk ok] ok bb show ?thesis by simp
qed

text \<open>
  Claim C1, amended.  The archive is read to its end without error; its \<open>asset\<close>,
  \<open>asset.meta\<close> and \<open>pathname\<close> members stand group after group, each group with
  one \<open>asset\<close> entry, at most one \<open>asset.meta\<close> entry and, after them, its
  \<open>pathname\<close> entry (entries of other kinds may stand anywhere); the identifiers
  of the groups are distinct plain names, and no staged path is blocked in the
  file tree (the temporary directory need not exist yet).  Then \<open>extractTarGz\<close>
  returns as many records as there are groups, in the order of the groups, and
  each record has the logical path of its group and a staged payload (and
  sidecar, when the group has one) that holds the bytes of the group's entry.
\<close>

theorem well_grouped_archive_extracts:
  assumes "header_ok a" and "ending a = End_of_archive"
    and "grouped (filter relevant (entries a)) gs"
    and "distinct (map gid gs)" and "list_all (\<lambda>g. plain (gid g)) gs"
    and "staging_ready tempDir gs (files w)"
  shows "\<exists>assets w'. extractTarGz srcFile tempDir (Some a) w = (Inr assets, w')
       \<and> length assets = length gs
       \<and> list_all2 (matches tempDir (files w')) assets gs"
proof -
  obtain r ts where pt: "parse tempDir = (r, ts)" by (cases "parse tempDir")
  from assms(5) have pl: "\<forall>g\<in>set gs. plain (gid g)" by (simp add: list_all_iff)
  from assms(6) pt have t: "tempDir \<noteq> []"
    and free: "\<forall>p\<in>set (prefixes ts).
         lookup (files w) (r, p) = None \<or> lookup (files w) (r, p) = Some Dir"
    and ready: "\<forall>g\<in>set gs.
         (lookup (files w) (r, ts @ [gid g]) = None \<or>
          lookup (files w) (r, ts @ [gid g]) = Some Dir) \<and>
         lookup (files w) (r, ts @ [gid g, ''asset'']) \<noteq> Some Dir \<and>
         lookup (files w) (r, ts @ [gid g, ''asset.meta'']) \<noteq> Some Dir"
    by (simp_all add: staging_ready_def list_all_iff)
  from free have "\<forall>p. prefix p ts \<and> p \<noteq> [] \<longrightarrow>
      lookup (files w) (r, [] @ p) = None \<or> lookup (files w) (r, [] @ p) = Some Dir"
    by (simp add: in_set_prefixes)
  from mkdir_chain_open [OF this] obtain fs0 where mk: "mkdir_chain r [] ts (files w) = Inr fs0"
    by blast
  have dirs: "list_all (\<lambda>p. lookup fs0 (r, p) = Some Dir) (prefixes ts)"
    unfolding list_all_iff
  proof
    fix p assume "p \<in> set (prefixes ts)"
    then have pc: "prefix p ts" by (simp add: in_set_prefixes)
    show "lookup fs0 (r, p) = Some Dir"
    proof (cases "p = []")
      case True
      then show ?thesis by (simp add: lookup_def)
    next
      case False
      from mkdir_chain_dirs [OF mk pc False] show ?thesis by simp
    qed
  qed
  have same: "fs0 (r, ts @ c # x) = files w (r, ts @ c # x)" for c x
  proof (rule ccontr)
    assume "fs0 (r, ts @ c # x) \<noteq> files w (r, ts @ c # x)"
    from mkdir_chain_frame [OF mk this] show False
      by (auto simp: under_def dest: prefix_length_le)
  qed
  have cl: "\<forall>g\<in>set gs. clear r ts g fs0"
  proof
    fix g assume g: "g \<in> set gs"
    with pl have "gid g \<noteq> ''..''" by (auto simp: plain_def)
    then have "lookup (files w) (r, ts @ gid g # x) = files w (r, ts @ gid g # x)" for x
      by (intro lookup_named [of "gid g"]) auto
    from this [of "[]"] this [of "[''asset'']"] this [of "[''asset.meta'']"] bspec [OF ready g]
      same [of "gid g" "[]"] same [of "gid g" "[''asset'']"] same [of "gid g" "[''asset.meta'']"]
    show "clear r ts g fs0" by (simp add: clear_def)
  qed
  let ?fs = "fold (stage (r, ts)) gs fs0"
  let ?assets = "map (record_for tempDir) gs"
  have on0: "extract_loop tempDir (filter relevant (entries a)) End_of_archive
                (empty_asset, []) fs0 = (Inr ?assets, ?fs)"
    using extract_grouped [OF t pt assms(3,4) pl dirs cl, of "[]"] by simp
  have "\<exists>fs'. extract_loop tempDir (filter relevant (entries a)) End_of_archive
                (empty_asset, []) (files w) = (Inr ?assets, fs') \<and>
              (gs \<noteq> [] \<longrightarrow> fs' = ?fs)"
  proof (cases gs)
    case Nil
    with assms(3) show ?thesis by simp
  next
    case (Cons g gs')
    with assms(3) have "grouped (filter relevant (entries a)) (g # gs')" by (simp only:)
    then obtain b rest where b: "b \<in> set (group_layouts g)"
      and es: "filter relevant (entries a) = b @ rest"
      by (rule grouped_Cons)
    from Cons pl cl have pg: "plain (gid g)" and cg: "clear r ts g fs0" by simp_all
    from block_premade [OF t pt pg mk dirs cg b, of rest End_of_archive empty_asset "[]"] es on0
    show ?thesis by simp
  qed
  then obtain fs' where l: "extract_loop tempDir (filter relevant (entries a)) End_of_archive
                (empty_asset, []) (files w) = (Inr ?assets, fs')"
    and fs': "gs \<noteq> [] \<longrightarrow> fs' = ?fs" by blast
  from l have loop: "extract_loop tempDir (entries a) (ending a) (empty_asset, []) (files w) =
      (Inr ?assets, fs')"
    using assms(2) by (simp add: extract_loop_relevant)
  let ?w' = "say (Info_extracted (length ?assets))
               ((say (Info_extracting srcFile) w)\<lparr>files := fs'\<rparr>)"
  have run: "extractTarGz srcFile tempDir (Some a) w = (Inr ?assets, ?w')"
    using loop assms(1) by (simp add: extractTarGz_def say_def)
  have fw: "files ?w' = fs'" by (simp add: say_def)
  have "\<forall>g\<in>set gs. matches tempDir fs' (record_for tempDir g) g"
  proof
    fix g assume g: "g \<in> set gs"
    with fs' have f: "fs' = ?fs" by auto
    from g pl have pg: "plain (gid g)" by simp
    then have gd: "gid g \<noteq> ''..''" by (simp add: plain_def)
    have pa: "parse (filepath_Join [tempDir, gid g, ''asset'']) = (r, ts @ [gid g, ''asset''])"
      using parse_Join3 [OF t pg plain_members(1)] pt by simp
    have pm: "parse (filepath_Join [tempDir, gid g, ''asset.meta'']) =
                (r, ts @ [gid g, ''asset.meta''])"
      using parse_Join3 [OF t pg plain_members(2)] pt by simp
    have la: "lookup ?fs (r, ts @ [gid g, ''asset'']) = ?fs (r, ts @ [gid g, ''asset''])"
      using gd by (intro lookup_named [of "gid g"]) auto
    have lm: "lookup ?fs (r, ts @ [gid g, ''asset.meta'']) = ?fs (r, ts @ [gid g, ''asset.meta''])"
      using gd by (intro lookup_named [of "gid g"]) auto
    from fold_stage_values [OF assms(4) g, of r ts fs0] pa pm la lm f
    show "matches tempDir fs' (record_for tempDir g) g"
      by (auto simp: matches_def record_for_def split: option.splits)
  qed
  then have "list_all2 (matches tempDir fs') ?assets gs"
    by (simp add: list_all2_map1 list_all2_same)
  with run fw show ?thesis by (metis length_map)
qed

text \<open>
  A run of the theorem of Claim C1: the Wood group and a group with its sidecar
  first, among a file at the root, a directory entry and another member.
\<close>

theorem well_grouped_archive_extracts_witness:
  "header_ok rich_archive \<and> ending rich_archive = End_of_archive
   \<and> grouped (filter relevant (entries rich_archive)) [wood_group, oak_group]
   \<and> distinct (map gid [wood_group, oak_group])
   \<and> list_all (\<lambda>g. plain (gid g)) [wood_group, oak_group]
   \<and> staging_ready ''tmp'' [wood_group, oak_group] (files staging_world)
   \<and> (\<exists>assets w'. extractTarGz ''rich.unitypackage'' ''tmp'' (Some rich_archive)
          staging_world = (Inr assets, w')
        \<and> length assets = length [wood_group, oak_group]
        \<and> list_all2 (matches ''tmp'' (files w')) assets [wood_group, oak_group])"
proof -
  have h1: "header_ok rich_archive" by code_simp
  have h2: "ending rich_archive = End_of_archive" by code_simp
  have h3: "grouped (filter relevant (entries rich_archive)) [wood_group, oak_group]" by code_simp
  have h4: "distinct (map gid [wood_group, oak_group])" by code_simp
  have h5: "list_all (\<lambda>g. plain (gid g)) [wood_group, oak_group]" by code_simp
  have h6: "staging_ready ''tmp'' [wood_group, oak_group] (files staging_world)" by code_simp
  from well_grouped_archive_extracts [OF h1 h2 h3 h4 h5 h6] h1 h2 h3 h4 h5 h6
  show ?thesis by blast
qed

text \<open>
  Claim C1 as stated fails.  With the \<open>pathname\<close> entry first, the order in which
  the claim lists the entries, the record has no payload.  With the \<open>asset\<close> entry
  first and the groups interleaved, the record of the group \<open>A\<close> holds the file of
  the group \<open>B\<close>.  With the identifiers \<open>\<close> (empty) and \<open>.\<close> both records point to
  one staged file, which holds the second payload.  Where a regular file stands
  in the place of the directory of a group, extraction fails; and where the
  compressed stream is damaged after the last entry, no record is returned.
\<close>

theorem misgrouped_archive_counterexample:
  "fst (extractTarGz ''p'' ''tmp'' (Some pathname_first_archive) staging_world) =
     Inr [\<lparr>AssetPath = [], MetaPath = [], PathName = ''a.txt''\<rparr>]
   \<and> fst (extractTarGz ''p'' ''tmp'' (Some interleaved_archive) staging_world) =
     Inr [\<lparr>AssetPath = ''tmp/B/asset'', MetaPath = [], PathName = ''a.txt''\<rparr>,
          \<lparr>AssetPath = [], MetaPath = [], PathName = ''b.txt''\<rparr>]
   \<and> lookup (files (snd (extractTarGz ''p'' ''tmp'' (Some interleaved_archive) staging_world)))
       (parse ''tmp/B/asset'') = Some (File ''bytes of B'')
   \<and> fst (extractTarGz ''p'' ''tmp'' (Some dotted_archive) staging_world) =
     Inr [\<lparr>AssetPath = ''tmp/asset'', MetaPath = [], PathName = ''a.txt''\<rparr>,
          \<lparr>AssetPath = ''tmp/asset'', MetaPath = [], PathName = ''b.txt''\<rparr>]
   \<and> lookup (files (snd (extractTarGz ''p'' ''tmp'' (Some dotted_archive) staging_world)))
       (parse ''tmp/asset'') = Some (File ''second bytes'')
   \<and> fst (extractTarGz ''p'' ''tmp'' (Some wood_archive) blocked_world) =
     Inl (E_create_directory ''tmp/abc123/asset'' ENOTDIR)
   \<and> fst (extractTarGz ''p'' ''tmp'' (Some (wood_archive\<lparr>ending := Gzip_corrupt\<rparr>))
            staging_world) = Inl E_read_tar"
  by code_simp

section \<open>The Wood scenario\<close>

lemma wood_runs:
  "fst (wood_run wood_archive False False) = 0
   \<and> lookup (files (snd (wood_run wood_archive False False))) (parse ''out/Materials/Wood.mat'') =
       Some (File wood_bytes)
   \<and> lookup (files (snd (wood_run wood_archive False False)))
       (parse ''out/Materials/Wood.mat.meta'') = None"
  "fst (wood_run wood_archive False True) = 0
   \<and> lookup (files (snd (wood_run wood_archive False True))) (parse ''out/Materials/Wood.mat'') =
       Some (File wood_bytes)
   \<and> lookup (files (snd (wood_run wood_archive False True)))
       (parse ''out/Materials/Wood.mat.meta'') = None"
  "fst (wood_run wood_archive True False) = 0
   \<and> lookup (files (snd (wood_run wood_archive True False))) (parse ''out/Materials/Wood.mat'') =
       Some (File wood_bytes)
   \<and> lookup (files (snd (wood_run wood_archive True False)))
       (parse ''out/Materials/Wood.mat.meta'') = None"
  "fst (wood_run wood_archive True True) = 0
   \<and> lookup (files (snd (wood_run wood_archive True True))) (parse ''out/Materials/Wood.mat'') =
       Some (File wood_bytes)
   \<and> lookup (files (snd (wood_run wood_archive True True)))
       (parse ''out/Materials/Wood.mat.meta'') = None"
  by code_simp+

lemma wood_run_relevant:
  assumes "header_ok a" and "ending a = End_of_archive"
    and "filter relevant (entries a) = entries wood_archive"
  shows "wood_run a no_rename no_remove = wood_run wood_archive no_rename no_remove"
proof -
  have "a\<lparr>entries := filter relevant (entries a)\<rparr> = wood_archive"
    using assms by (cases a) (simp add: wood_archive_def)
  with main_relevant [of _ a] show ?thesis by (simp add: wood_run_def)
qed

text \<open>
  Claim C2, amended.  The archive holds the group \<open>abc123\<close> with its \<open>asset\<close> entry
  (the ten bytes \<open>0x00..0x09\<close>) before its \<open>pathname\<close> entry (\<open>Materials/Wood.mat\<close>)
  and no other \<open>asset\<close>, \<open>asset.meta\<close> or \<open>pathname\<close> member; entries of other kinds
  may stand anywhere.  Run in an empty working directory with the output
  directory \<open>out/\<close>, whether or not the system refuses renames or the removal of
  the temporary directory, the program ends with status 0,
  \<open>out/Materials/Wood.mat\<close> holds the ten bytes and \<open>out/Materials/Wood.mat.meta\<close>
  does not exist.
\<close>

theorem wood_scenario_asset_first:
  assumes "header_ok a" and "ending a = End_of_archive"
    and "filter relevant (entries a) = entries wood_archive"
  shows "fst (wood_run a no_rename no_remove) = 0
   \<and> lookup (files (snd (wood_run a no_rename no_remove))) (parse ''out/Materials/Wood.mat'') =
       Some (File wood_bytes)
   \<and> lookup (files (snd (wood_run a no_rename no_remove)))
       (parse ''out/Materials/Wood.mat.meta'') = None"
  unfolding wood_run_relevant [OF assms]
  using wood_runs by (cases no_rename; cases no_remove) simp_all

text \<open>
  A run of the theorem of Claim C2: the Wood group among a directory entry,
  another member and a file at the root, on a system that refuses every rename.
\<close>

theorem wood_scenario_asset_first_witness:
  "header_ok wood_among_others \<and> ending wood_among_others = End_of_archive
   \<and> filter relevant (entries wood_among_others) = entries wood_archive
   \<and> fst (wood_run wood_among_others True False) = 0
   \<and> lookup (files (snd (wood_run wood_among_others True False)))
       (parse ''out/Materials/Wood.mat'') = Some (File wood_bytes)
   \<and> lookup (files (snd (wood_run wood_among_others True False)))
       (parse ''out/Materials/Wood.mat.meta'') = None"
proof -
  have h1: "header_ok wood_among_others" by code_simp
  have h2: "ending wood_among_others = End_of_archive" by code_simp
  have h3: "filter relevant (entries wood_among_others) = entries wood_archive" by code_simp
  from wood_scenario_asset_first [OF h1 h2 h3, of True False] h1 h2 h3 show ?thesis by blast
qed

text \<open>
  Claim C2 as stated fails: the claim fixes no order, and with the \<open>pathname\<close>
  entry before the \<open>asset\<close> entry the program warns of an incomplete entry, ends
  with status 0 and \<open>out/Materials/Wood.mat\<close> does not exist.  Nor does the file
  appear where \<open>out\<close> is a regular file: the program ends with status 1.
\<close>

theorem wood_pathname_first_counterexample:
  "fst (wood_run wood_pathname_first False False) = 0
   \<and> lookup (files (snd (wood_run wood_pathname_first False False)))
       (parse ''out/Materials/Wood.mat'') = None
   \<and> Warn_skipping_incomplete \<in> set (stdout (snd (wood_run wood_pathname_first False False)))
   \<and> fst (main [''unpack'', ''Wood.unitypackage'', ''out/''] (Some wood_archive) ''4242''
            out_is_a_file) = 1
   \<and> lookup (files (snd (main [''unpack'', ''Wood.unitypackage'', ''out/''] (Some wood_archive)
            ''4242'' out_is_a_file))) (parse ''out/Materials/Wood.mat'') = None"
  by code_simp

section \<open>Reconstruction skips incomplete records\<close>


lemma same_tree_say: "same_tree w v \<Longrightarrow> same_tree (say m w) (say n v)"
  by (simp add: same_tree_def say_def)

lemma same_tree_say_left: "same_tree w v \<Longrightarrow> same_tree (say m w) v"
  by (simp add: same_tree_def say_def)

lemma moveFile_same_tree:
  assumes "same_tree w v" and "moveFile s d w = (res, w1)"
  shows "\<exists>v1. moveFile s d v = (res, v1) \<and> same_tree w1 v1"
  using assms
  by (auto simp: moveFile_def same_tree_def split: sum.splits)

lemma reconstruct_loop_filter:
  "same_tree w v \<Longrightarrow>
   fst (reconstruct_loop as t w) = fst (reconstruct_loop (filter eligible as) t v) \<and>
   same_tree (snd (reconstruct_loop as t w)) (snd (reconstruct_loop (filter eligible as) t v))"
proof (induction as arbitrary: w v)
  case Nil
  then show ?case by simp
next
  case (Cons a as)
  show ?case
  proof (cases "eligible a")
    case False
    then have "reconstruct_loop (a # as) t w = reconstruct_loop as t (say Warn_skipping_incomplete w)"
      by (auto simp: eligible_def)
    with False Cons.IH [OF same_tree_say_left [OF Cons.prems]] show ?thesis by simp
  next
    case True
    let ?target = "filepath_Join [t, PathName a]"
    obtain r1 w1 where m1: "moveFile (AssetPath a) ?target (say (Info_moving (PathName a)) w) = (r1, w1)"
      by (cases "moveFile (AssetPath a) ?target (say (Info_moving (PathName a)) w)")
    from moveFile_same_tree [OF same_tree_say [OF Cons.prems] m1] obtain v1 where
      n1: "moveFile (AssetPath a) ?target (say (Info_moving (PathName a)) v) = (r1, v1)"
      and s1: "same_tree w1 v1" by blast
    show ?thesis
    proof (cases r1)
      case (Inl e)
      with True m1 n1 s1 show ?thesis by (simp add: eligible_def)
    next
      case (Inr u)
      show ?thesis
      proof (cases "MetaPath a = []")
        case nometa: True
        from Cons.IH [OF same_tree_say [OF s1]] True m1 n1 Inr nometa
        show ?thesis by (simp add: eligible_def)
      next
        case meta: False
        obtain r2 w2 where m2: "moveFile (MetaPath a) (?target @ ''.meta'') w1 = (r2, w2)"
          by (cases "moveFile (MetaPath a) (?target @ ''.meta'') w1")
        from moveFile_same_tree [OF s1 m2] obtain v2 where
          n2: "moveFile (MetaPath a) (?target @ ''.meta'') v1 = (r2, v2)"
          and s2: "same_tree w2 v2" by blast
        show ?thesis
        proof (cases r2)
          case e2: (Inl e)
          with True m1 n1 Inr meta m2 n2 s2 show ?thesis by (simp add: eligible_def)
        next
          case u2: (Inr u')
          from Cons.IH [OF s2] True m1 n1 Inr meta m2 n2 u2
          show ?thesis by (simp add: eligible_def)
        qed
      qed
    qed
  qed
qed

lemma same_tree_refl: "same_tree w w"
  by (simp add: same_tree_def)

lemma reconstructStructure_filter:
  "fst (reconstructStructure as t w) = fst (reconstructStructure (filter eligible as) t w) \<and>
   files (snd (reconstructStructure as t w)) =
     files (snd (reconstructStructure (filter eligible as) t w))"
proof -
  let ?w = "say (Info_reconstructing t) w"
  from reconstruct_loop_filter [OF same_tree_refl, of as t ?w]
  have f: "fst (reconstruct_loop as t ?w) = fst (reconstruct_loop (filter eligible as) t ?w)"
    and s: "files (snd (reconstruct_loop as t ?w)) =
            files (snd (reconstruct_loop (filter eligible as) t ?w))"
    by (simp_all add: same_tree_def)
  obtain r1 w1 where a: "reconstruct_loop as t ?w = (r1, w1)"
    by (cases "reconstruct_loop as t ?w")
  obtain r2 w2 where b: "reconstruct_loop (filter eligible as) t ?w = (r2, w2)"
    by (cases "reconstruct_loop (filter eligible as) t ?w")
  from f s a b show ?thesis
    by (cases r1) (auto simp: reconstructStructure_def say_def)
qed

subsection \<open>What moveFile can create\<close>

lemma os_MkdirAll_frame:
  "os_MkdirAll name fs = Inr fs' \<Longrightarrow> fs' q \<noteq> fs q \<Longrightarrow> under q (parse name)"
  using mkdir_chain_frame [of "fst (parse name)" "[]" "snd (parse name)" fs fs' q]
  by (auto simp: os_MkdirAll_def split: if_splits prod.splits)

lemma os_Create_result:
  "os_Create d fs = Inr fs2 \<Longrightarrow>
   fs2 = fs(parse d \<mapsto> File []) \<and> \<not> list_all (\<lambda>c. c = ''..'') (snd (parse d))"
  by (auto simp: os_Create_def lookup_def split: if_splits option.splits node.splits)

lemma copy_bytes_frame: "copy_bytes s d fs = Inr fs3 \<Longrightarrow> q \<noteq> parse d \<Longrightarrow> fs3 q = fs q"
  by (auto simp: copy_bytes_def write_bytes_def split: option.splits node.splits)

lemma os_Rename_creates:
  assumes "os_Rename R s d fs = Inr fs2" and "fs q = None" and "fs2 q \<noteq> None"
  shows "under (parse d) q \<and> \<not> list_all (\<lambda>c. c = ''..'') (snd (parse d))"
proof -
  from assms(1) have ne: "\<not> (lookup fs (parse d) = Some Dir \<and> (s = d \<or> parse s \<noteq> parse d))"
    by (auto simp: os_Rename_def split: if_splits option.splits)
  from assms have sd: "parse s \<noteq> parse d"
    by (auto simp: os_Rename_def split: if_splits option.splits)
  with ne have "lookup fs (parse d) \<noteq> Some Dir" by blast
  then have ni: "\<not> list_all (\<lambda>c. c = ''..'') (snd (parse d))" by (auto simp: lookup_def)
  from assms sd have "under (parse d) q"
    by (auto simp: os_Rename_def move_tree_def under_def
             split: if_splits option.splits node.splits)
  with ni show ?thesis by simp
qed

lemma moveFile_creates:
  assumes mv: "moveFile s d w = (res, w')" and old: "files w q = None"
    and new: "files w' q \<noteq> None"
  shows "under q (parse (filepath_Dir d)) \<or>
         (under (parse d) q \<and> \<not> list_all (\<lambda>c. c = ''..'') (snd (parse d)))"
proof (cases "os_MkdirAll (filepath_Dir d) (files w)")
  case (Inl x)
  with mv old new show ?thesis by (simp add: moveFile_def)
next
  case (Inr fs1)
  show ?thesis
  proof (cases "fs1 q = None")
    case False
    with old have "fs1 q \<noteq> files w q" by simp
    from os_MkdirAll_frame [OF Inr this] show ?thesis by simp
  next
    case True
    show ?thesis
    proof (cases "os_Rename (refused w) s d fs1")
      case rn: (Inr fs2)
      with Inr mv have "files w' = fs2" by (auto simp: moveFile_def)
      with os_Rename_creates [OF rn True] new show ?thesis by simp
    next
      case rf: (Inl e)
      show ?thesis
      proof (cases "os_Create d fs1")
        case (Inl x)
        with Inr rf mv have "files w' = fs1"
          by (auto simp: moveFile_def split: sum.splits)
        with True new show ?thesis by simp
      next
        case cr: (Inr fs2)
        from os_Create_result [OF cr] have fs2: "fs2 = fs1(parse d \<mapsto> File [])"
          and ni: "\<not> list_all (\<lambda>c. c = ''..'') (snd (parse d))" by blast+
        have "q = parse d"
        proof (rule ccontr)
          assume nq: "q \<noteq> parse d"
          with fs2 True have q2: "fs2 q = None" by simp
          from Inr rf cr mv consider (a) "files w' = fs1" | (b) "files w' = fs2"
            | (c) fs3 where "copy_bytes s d fs2 = Inr fs3" "files w' = fs3"
            by (auto simp: moveFile_def split: sum.splits)
          then have "files w' q = None"
          proof cases
            case a
            with True show ?thesis by simp
          next
            case b
            with q2 show ?thesis by simp
          next
            case c
            from copy_bytes_frame [OF c(1) nq] c(2) q2 show ?thesis by simp
          qed
          with new show False by simp
        qed
        with ni show ?thesis by (simp add: under_def)
      qed
    qed
  qed
qed

subsection \<open>The path of the sidecar\<close>

lemma settled_snoc:
  assumes "settled r bs" and "elem_ok c" and "c \<noteq> ''..''"
  shows "settled r (bs @ [c])"
  using settled_push [OF assms(1,2)] assms(3) by (simp add: push_elem_def)

lemma render_snoc_append: "render (r, bs @ [c]) @ x = render (r, bs @ [c @ x])"
proof (cases "bs = []")
  case True
  then show ?thesis by (simp add: render_def)
next
  case False
  then show ?thesis by (simp add: render_def join_sep_snoc)
qed

lemma meta_elem: "sep \<notin> set c \<Longrightarrow> elem_ok (c @ ''.meta'') \<and> c @ ''.meta'' \<noteq> ''..''"
  by (auto simp: elem_ok_def sep_def)

lemma parse_render_meta:
  assumes "settled r (bs @ [c])"
  shows "parse (render (r, bs @ [c]) @ ''.meta'') = (r, bs @ [c @ ''.meta''])"
proof -
  from assms have c: "sep \<notin> set c" by (simp add: settled_def elem_ok_def)
  from assms have "settled r bs" by (rule settled_prefix)
  with meta_elem [OF c] have "settled r (bs @ [c @ ''.meta''])"
    by (intro settled_snoc) auto
  then show ?thesis by (simp add: render_snoc_append parse_render)
qed

lemma parse_root_meta:
  "snd (parse (render (r, []) @ ''.meta'')) \<noteq> []"
  by (cases r) (simp_all add: render_def parse_def is_rooted_def elems_def split_sep_def
      push_elem_def sep_def)

lemma meta_apart:
  assumes "settled r cs"
  shows "\<not> under (parse (render (r, cs) @ ''.meta'')) (r, butlast cs) \<and>
         (under (r, cs) (parse (render (r, cs) @ ''.meta'')) \<longrightarrow> list_all (\<lambda>c. c = ''..'') cs)"
proof (cases cs rule: rev_cases)
  case Nil
  with parse_root_meta [of r] show ?thesis by (auto simp: under_def)
next
  case (snoc bs c)
  with assms parse_render_meta [of r bs c] show ?thesis
    by (auto simp: under_def prefix_def)
qed

lemma Join2_Clean: "p \<noteq> [] \<Longrightarrow> \<exists>x. filepath_Join [t, p] = filepath_Clean x"
  by (cases "t = []") (auto simp: filepath_Join_def)

lemma no_meta_created:
  assumes p: "p \<noteq> []"
    and mv: "moveFile s (filepath_Join [t, p]) w = (res, w')"
    and old: "lookup (files w) (parse (filepath_Join [t, p] @ ''.meta'')) = None"
  shows "lookup (files w') (parse (filepath_Join [t, p] @ ''.meta'')) = None"
proof -
  let ?target = "filepath_Join [t, p]"
  let ?M = "parse (?target @ ''.meta'')"
  from Join2_Clean [OF p] obtain x where x: "?target = filepath_Clean x" by blast
  obtain r cs where px: "parse x = (r, cs)" by (cases "parse x")
  with settled_parse [of x] have st: "settled r cs" by simp
  from x px have tr: "?target = render (r, cs)" by (simp add: filepath_Clean_def)
  have pt: "parse ?target = (r, cs)" using tr parse_render [OF st] by simp
  have pd: "parse (filepath_Dir ?target) = (r, butlast cs)"
    using tr parse_Dir_render [OF st] by simp
  from old have o: "files w ?M = None" and ni: "\<not> list_all (\<lambda>c. c = ''..'') (snd ?M)"
    by (auto simp: lookup_def split: if_splits)
  have "files w' ?M = None"
  proof (rule ccontr)
    assume "files w' ?M \<noteq> None"
    from moveFile_creates [OF mv o this] pt pd meta_apart [OF st] tr
    show False by auto
  qed
  with ni show ?thesis by (simp add: lookup_def)
qed

lemma reconstruct_payload_only:
  assumes "eligible a" and "MetaPath a = []"
  shows "reconstruct_loop [a] t w =
         (case moveFile (AssetPath a) (filepath_Join [t, PathName a])
                 (say (Info_moving (PathName a)) w) of
            (Inl e, w1) \<Rightarrow> (Inl (E_move_asset e), w1)
          | (Inr u, w1) \<Rightarrow> (Inr (), say (Info_no_meta (PathName a)) w1))"
  using assms by (auto simp: eligible_def split: prod.splits sum.splits)

subsection \<open>Record by record\<close>

lemma reconstruct_loop_append:
  "reconstruct_loop (xs @ ys) t w =
     (case reconstruct_loop xs t w of
        (Inl e, w1) \<Rightarrow> (Inl e, w1)
      | (Inr u, w1) \<Rightarrow> reconstruct_loop ys t w1)"
  by (induction xs arbitrary: w) (auto split: prod.splits sum.splits)

lemma reconstructStructure_Inr:
  assumes "reconstructStructure as t w = (Inr u, w1)"
  obtains w0 where "reconstruct_loop as t (say (Info_reconstructing t) w) = (Inr (), w0)"
    and "w1 = say Info_complete w0"
  using assms by (auto simp: reconstructStructure_def split: prod.splits sum.splits)

lemma reconstructStructure_Inl:
  assumes "reconstructStructure as t w = (Inl e, w1)"
  shows "reconstruct_loop as t (say (Info_reconstructing t) w) = (Inl e, w1)"
  using assms by (auto simp: reconstructStructure_def split: prod.splits sum.splits)

lemma moveFile_world:
  "moveFile s d w = (r, w') \<Longrightarrow> stdout w' = stdout w \<and> synced w' = synced w \<and> refused w' = refused w"
  by (auto simp: moveFile_def split: sum.splits)

lemma moveFile_keeps_file:
  assumes mv: "moveFile s d w = (Inr (), w1)"
    and src: "lookup (files w) (parse s) = Some (File b)"
    and q: "lookup (files w) q = Some (File c)"
    and qs: "q \<noteq> parse s" and qd: "q \<noteq> parse d"
  shows "lookup (files w1) q = Some (File c)"
proof (cases "os_MkdirAll (filepath_Dir d) (files w)")
  case (Inl x)
  with mv show ?thesis by (simp add: moveFile_def)
next
  case (Inr fs1)
  then have s1: "lookup fs1 (parse s) = Some (File b)" and q1: "lookup fs1 q = Some (File c)"
    using src q os_MkdirAll_adds adds_lookup by blast+
  from lookup_File [OF q1] have fq: "fs1 q = Some (File c)"
    and nq: "\<not> list_all (\<lambda>c. c = ''..'') (snd q)" by blast+
  show ?thesis
  proof (cases "os_Rename (refused w) s d fs1")
    case rn: (Inr fs2)
    with Inr mv have w1: "files w1 = fs2" by (auto simp: moveFile_def)
    from rn s1 have "fs2 = fs1 \<or> fs2 = (fs1(parse s := None))(parse d \<mapsto> File b)"
      by (auto simp: os_Rename_def split: if_splits option.splits node.splits)
    with fq qs qd have "fs2 q = Some (File c)" by auto
    with nq w1 show ?thesis by (simp add: lookup_def)
  next
    case rf: (Inl e)
    from Inr rf mv obtain fs2 fs3 where
      cr: "os_Create d fs1 = Inr fs2" and
      cp: "copy_bytes s d fs2 = Inr fs3" and
      w1: "w1 = w\<lparr>files := fs3\<rparr>"
      by (auto simp: moveFile_def split: sum.splits)
    from os_Create_result [OF cr] have "fs2 = fs1(parse d \<mapsto> File [])" by blast
    with fq qd have "fs2 q = Some (File c)" by simp
    with copy_bytes_frame [OF cp qd] have "fs3 q = Some (File c)" by simp
    with nq w1 show ?thesis by (simp add: lookup_def)
  qed
qed

lemma target_meta_differs:
  assumes "p \<noteq> []"
  shows "parse (filepath_Join [t, p] @ ''.meta'') \<noteq> parse (filepath_Join [t, p])"
proof -
  let ?target = "filepath_Join [t, p]"
  from Join2_Clean [OF assms] obtain x where x: "?target = filepath_Clean x" by blast
  obtain r cs where px: "parse x = (r, cs)" by (cases "parse x")
  with settled_parse [of x] have st: "settled r cs" by simp
  from x px have tr: "?target = render (r, cs)" by (simp add: filepath_Clean_def)
  have pt: "parse ?target = (r, cs)" using tr parse_render [OF st] by simp
  show ?thesis
  proof (cases cs rule: rev_cases)
    case Nil
    with parse_root_meta [of r] tr pt show ?thesis by auto
  next
    case (snoc bs c)
    with st parse_render_meta [of r bs c] tr pt show ?thesis by auto
  qed
qed

lemma reconstruct_empty:
  "reconstructStructure [] t w =
     (Inr (), w\<lparr>stdout := stdout w @ [Info_reconstructing t, Info_complete]\<rparr>)"
  by (simp add: reconstructStructure_def say_def)

lemma reconstruct_abort:
  assumes "reconstructStructure pre t w = (Inl e, w1)"
  shows "reconstructStructure (pre @ rest) t w = (Inl e, w1)"
  using reconstructStructure_Inl [OF assms]
  by (simp add: reconstructStructure_def reconstruct_loop_append)

lemma reconstruct_skip:
  assumes "reconstructStructure pre t w = (Inr u, w1)" and "\<not> eligible a"
  shows "reconstructStructure (pre @ [a]) t w =
     (Inr (), w1\<lparr>stdout := butlast (stdout w1) @ [Warn_skipping_incomplete, Info_complete]\<rparr>)"
proof -
  from assms(1) obtain w0 where
    l: "reconstruct_loop pre t (say (Info_reconstructing t) w) = (Inr (), w0)"
    and w1: "w1 = say Info_complete w0" by (rule reconstructStructure_Inr)
  from assms(2) have "reconstruct_loop [a] t w0 = (Inr (), say Warn_skipping_incomplete w0)"
    by (auto simp: eligible_def)
  with l w1 show ?thesis
    by (simp add: reconstructStructure_def reconstruct_loop_append say_def)
qed

lemma reconstruct_payload:
  assumes run: "reconstructStructure pre t w = (Inr u, w1)"
    and el: "eligible a" and nm: "MetaPath a = []"
  shows "fst (reconstructStructure (pre @ [a]) t w) =
           (case fst (moveFile (AssetPath a) (filepath_Join [t, PathName a]) w1) of
              Inl e \<Rightarrow> Inl (E_move_asset e) | Inr u \<Rightarrow> Inr ())" (is ?A)
    and "files (snd (reconstructStructure (pre @ [a]) t w)) =
           files (snd (moveFile (AssetPath a) (filepath_Join [t, PathName a]) w1))" (is ?B)
    and "lookup (files w1) (parse (filepath_Join [t, PathName a] @ ''.meta'')) = None \<Longrightarrow>
         lookup (files (snd (reconstructStructure (pre @ [a]) t w)))
           (parse (filepath_Join [t, PathName a] @ ''.meta'')) = None"
    and "fst (reconstructStructure (pre @ [a]) t w) = Inr () \<Longrightarrow>
         stdout (snd (reconstructStructure (pre @ [a]) t w)) =
           butlast (stdout w1) @
             [Info_moving (PathName a), Info_no_meta (PathName a), Info_complete]"
    and "fst (reconstructStructure (pre @ [a]) t w) = Inr () \<Longrightarrow>
         lookup (files w1) (parse (AssetPath a)) = Some (File b) \<Longrightarrow>
         parse (AssetPath a) \<noteq> parse (filepath_Join [t, PathName a]) \<Longrightarrow>
         lookup (files (snd (reconstructStructure (pre @ [a]) t w)))
           (parse (filepath_Join [t, PathName a])) = Some (File b)"
proof -
  let ?T = "filepath_Join [t, PathName a]"
  from run obtain w0 where
    l: "reconstruct_loop pre t (say (Info_reconstructing t) w) = (Inr (), w0)"
    and w1: "w1 = say Info_complete w0" by (rule reconstructStructure_Inr)
  let ?w = "say (Info_moving (PathName a)) w0"
  obtain res m where mv: "moveFile (AssetPath a) ?T ?w = (res, m)"
    by (cases "moveFile (AssetPath a) ?T ?w")
  have st: "same_tree ?w w1" using w1 by (simp add: same_tree_def say_def)
  from moveFile_same_tree [OF st mv] obtain v1 where
    mv1: "moveFile (AssetPath a) ?T w1 = (res, v1)" and st1: "same_tree m v1" by blast
  from el have p: "PathName a \<noteq> []" by (simp add: eligible_def)
  have one: "reconstruct_loop [a] t w0 =
      (case res of Inl e \<Rightarrow> (Inl (E_move_asset e), m)
                 | Inr u \<Rightarrow> (Inr (), say (Info_no_meta (PathName a)) m))"
    using reconstruct_payload_only [OF el nm, of t w0] mv by (simp split: sum.splits)
  have rs: "reconstructStructure (pre @ [a]) t w =
      (case res of Inl e \<Rightarrow> (Inl (E_move_asset e), m)
                 | Inr u \<Rightarrow> (Inr (), say Info_complete (say (Info_no_meta (PathName a)) m)))"
    using l one by (simp add: reconstructStructure_def reconstruct_loop_append split: sum.splits)
  have fm: "files (snd (reconstructStructure (pre @ [a]) t w)) = files m"
    using rs by (cases res) (simp_all add: say_def)
  show ?A using rs mv1 by (cases res) simp_all
  show ?B using fm st1 mv1 by (simp add: same_tree_def)
  show "lookup (files (snd (reconstructStructure (pre @ [a]) t w)))
           (parse (?T @ ''.meta'')) = None"
    if "lookup (files w1) (parse (?T @ ''.meta'')) = None"
  proof -
    from that w1 have "lookup (files ?w) (parse (?T @ ''.meta'')) = None" by (simp add: say_def)
    from no_meta_created [OF p mv this] fm show ?thesis by simp
  qed
  show "stdout (snd (reconstructStructure (pre @ [a]) t w)) =
           butlast (stdout w1) @
             [Info_moving (PathName a), Info_no_meta (PathName a), Info_complete]"
    if "fst (reconstructStructure (pre @ [a]) t w) = Inr ()"
  proof -
    from that rs have "res = Inr ()" by (cases res) simp_all
    with rs moveFile_world [OF mv] w1 show ?thesis by (simp add: say_def)
  qed
  show "lookup (files (snd (reconstructStructure (pre @ [a]) t w))) (parse ?T) = Some (File b)"
    if "fst (reconstructStructure (pre @ [a]) t w) = Inr ()"
      and "lookup (files w1) (parse (AssetPath a)) = Some (File b)"
      and "parse (AssetPath a) \<noteq> parse ?T"
  proof -
    from that(1) rs have r: "res = Inr ()" by (cases res) simp_all
    from that(2) w1 have "lookup (files ?w) (parse (AssetPath a)) = Some (File b)"
      by (simp add: say_def)
    from moveFile_bytes [OF this that(3)] mv r fm show ?thesis by simp
  qed
qed

lemma reconstruct_sidecar:
  assumes run: "reconstructStructure pre t w = (Inr u, w1)"
    and el: "eligible a" and hm: "MetaPath a \<noteq> []"
  shows "fst (reconstructStructure (pre @ [a]) t w) = Inr () \<or>
         (\<exists>e. fst (reconstructStructure (pre @ [a]) t w) = Inl (E_move_asset e)) \<or>
         (\<exists>e. fst (reconstructStructure (pre @ [a]) t w) = Inl (E_move_meta e))" (is ?A)
    and "fst (reconstructStructure (pre @ [a]) t w) = Inr () \<Longrightarrow>
         stdout (snd (reconstructStructure (pre @ [a]) t w)) =
           butlast (stdout w1) @ [Info_moving (PathName a), Info_complete]"
    and "fst (reconstructStructure (pre @ [a]) t w) = Inr () \<Longrightarrow>
         lookup (files w1) (parse (AssetPath a)) = Some (File b) \<Longrightarrow>
         lookup (files w1) (parse (MetaPath a)) = Some (File c) \<Longrightarrow>
         parse (AssetPath a) \<noteq> parse (filepath_Join [t, PathName a]) \<Longrightarrow>
         parse (MetaPath a) \<noteq> parse (AssetPath a) \<Longrightarrow>
         parse (MetaPath a) \<noteq> parse (filepath_Join [t, PathName a]) \<Longrightarrow>
         parse (MetaPath a) \<noteq> parse (filepath_Join [t, PathName a] @ ''.meta'') \<Longrightarrow>
         lookup (files (snd (reconstructStructure (pre @ [a]) t w)))
           (parse (filepath_Join [t, PathName a])) = Some (File b) \<and>
         lookup (files (snd (reconstructStructure (pre @ [a]) t w)))
           (parse (filepath_Join [t, PathName a] @ ''.meta'')) = Some (File c)"
proof -
  let ?T = "filepath_Join [t, PathName a]"
  let ?M = "?T @ ''.meta''"
  from run obtain w0 where
    l: "reconstruct_loop pre t (say (Info_reconstructing t) w) = (Inr (), w0)"
    and w1: "w1 = say Info_complete w0" by (rule reconstructStructure_Inr)
  let ?w = "say (Info_moving (PathName a)) w0"
  obtain r1 m1 where mv1: "moveFile (AssetPath a) ?T ?w = (r1, m1)"
    by (cases "moveFile (AssetPath a) ?T ?w")
  obtain r2 m2 where mv2: "moveFile (MetaPath a) ?M m1 = (r2, m2)"
    by (cases "moveFile (MetaPath a) ?M m1")
  from el have p: "PathName a \<noteq> []" and ap: "AssetPath a \<noteq> []" by (simp_all add: eligible_def)
  have one: "reconstruct_loop [a] t w0 =
      (case r1 of Inl e \<Rightarrow> (Inl (E_move_asset e), m1)
       | Inr u \<Rightarrow> (case r2 of Inl e \<Rightarrow> (Inl (E_move_meta e), m2) | Inr u \<Rightarrow> (Inr (), m2)))"
    using p ap hm mv1 mv2 by (simp split: sum.splits)
  have rs: "reconstructStructure (pre @ [a]) t w =
      (case r1 of Inl e \<Rightarrow> (Inl (E_move_asset e), m1)
       | Inr u \<Rightarrow> (case r2 of Inl e \<Rightarrow> (Inl (E_move_meta e), m2)
                   | Inr u \<Rightarrow> (Inr (), say Info_complete m2)))"
    using l one by (simp add: reconstructStructure_def reconstruct_loop_append split: sum.splits)
  show ?A using rs by (cases r1; cases r2) auto
  have ok: "r1 = Inr () \<and> r2 = Inr ()" if "fst (reconstructStructure (pre @ [a]) t w) = Inr ()"
    using that rs by (cases r1; cases r2) simp_all
  show "stdout (snd (reconstructStructure (pre @ [a]) t w)) =
           butlast (stdout w1) @ [Info_moving (PathName a), Info_complete]"
    if "fst (reconstructStructure (pre @ [a]) t w) = Inr ()"
    using ok [OF that] rs moveFile_world [OF mv1] moveFile_world [OF mv2] w1
    by (simp add: say_def)
  show "lookup (files (snd (reconstructStructure (pre @ [a]) t w))) (parse ?T) = Some (File b) \<and>
        lookup (files (snd (reconstructStructure (pre @ [a]) t w))) (parse ?M) = Some (File c)"
    if s: "fst (reconstructStructure (pre @ [a]) t w) = Inr ()"
      and fa: "lookup (files w1) (parse (AssetPath a)) = Some (File b)"
      and fm: "lookup (files w1) (parse (MetaPath a)) = Some (File c)"
      and d1: "parse (AssetPath a) \<noteq> parse ?T"
      and d2: "parse (MetaPath a) \<noteq> parse (AssetPath a)"
      and d3: "parse (MetaPath a) \<noteq> parse ?T"
      and d4: "parse (MetaPath a) \<noteq> parse ?M"
  proof -
    from ok [OF s] have r1: "r1 = Inr ()" and r2: "r2 = Inr ()" by simp_all
    from fa fm w1 have fa0: "lookup (files ?w) (parse (AssetPath a)) = Some (File b)"
      and fm0: "lookup (files ?w) (parse (MetaPath a)) = Some (File c)"
      by (simp_all add: say_def)
    from mv1 r1 have mv1': "moveFile (AssetPath a) ?T ?w = (Inr (), m1)" by simp
    from mv2 r2 have mv2': "moveFile (MetaPath a) ?M m1 = (Inr (), m2)" by simp
    from moveFile_bytes [OF fa0 d1 mv1']
    have t1: "lookup (files m1) (parse ?T) = Some (File b)" by simp
    from moveFile_keeps_file [OF mv1' fa0 fm0 d2 d3]
    have s1: "lookup (files m1) (parse (MetaPath a)) = Some (File c)" .
    from moveFile_bytes [OF s1 d4 mv2']
    have t2: "lookup (files m2) (parse ?M) = Some (File c)" by simp
    from target_meta_differs [OF p, of t] have d5: "parse ?T \<noteq> parse ?M" by simp
    from moveFile_keeps_file [OF mv2' s1 t1 d3 [symmetric] d5]
    have t3: "lookup (files m2) (parse ?T) = Some (File b)" .
    from rs r1 r2 have "files (snd (reconstructStructure (pre @ [a]) t w)) = files m2"
      by (simp add: say_def)
    with t2 t3 show ?thesis by simp
  qed
qed


lemma reconstruct_loop_ineligible:
  "list_all (\<lambda>a. \<not> eligible a) as \<Longrightarrow>
   reconstruct_loop as t w =
     (Inr (), w\<lparr>stdout := stdout w @ replicate (length as) Warn_skipping_incomplete\<rparr>)"
proof (induction as arbitrary: w)
  case Nil
  then show ?case by simp
next
  case (Cons a as)
  then have "reconstruct_loop (a # as) t w = reconstruct_loop as t (say Warn_skipping_incomplete w)"
    by (auto simp: eligible_def)
  with Cons show ?case by (simp add: say_def)
qed

lemma reconstruct_ineligible:
  assumes "list_all (\<lambda>a. \<not> eligible a) as"
  shows "reconstructStructure as t w =
     (Inr (), w\<lparr>stdout := stdout w @ Info_reconstructing t #
                  replicate (length as) Warn_skipping_incomplete @ [Info_complete]\<rparr>)"
  using reconstruct_loop_ineligible [OF assms, of t "say (Info_reconstructing t) w"]
  by (simp add: reconstructStructure_def say_def)

text \<open>
  Claim C6.  For every sequence of records, target directory and world.  The
  result and the file tree of \<open>reconstructStructure\<close> are those of its run on the
  eligible records alone; a sequence of incomplete records gives success, the
  same file tree and one warning for each record.  After a failure nothing more
  is done.  After a successful run on the records \<open>pre\<close>: a following incomplete
  record adds the warning and changes nothing else; a following eligible record
  without sidecar gives the result and the file tree of the single \<open>moveFile\<close>
  of its payload, creates no \<open>.meta\<close> file, fails only when that \<open>moveFile\<close> fails,
  and on success prints the notice and leaves the bytes of the payload at the
  target; a following eligible record with sidecar fails only with the error of
  one of its two moves, and on success the target holds the bytes of the payload
  and the target with \<open>.meta\<close> appended those of the sidecar.
\<close>

theorem reconstruction_skips_and_relocates:
  "fst (reconstructStructure as t w) = fst (reconstructStructure (filter eligible as) t w)
   \<and> files (snd (reconstructStructure as t w)) =
       files (snd (reconstructStructure (filter eligible as) t w))
   \<and> (list_all (\<lambda>a. \<not> eligible a) as \<longrightarrow>
        reconstructStructure as t w =
          (Inr (), w\<lparr>stdout := stdout w @ Info_reconstructing t #
                       replicate (length as) Warn_skipping_incomplete @ [Info_complete]\<rparr>))
   \<and> (reconstructStructure bad t w = (Inl e, w2) \<longrightarrow>
        reconstructStructure (bad @ rest) t w = (Inl e, w2))
   \<and> (reconstructStructure pre t w = (Inr (), w1) \<longrightarrow>
        (\<not> eligible a \<longrightarrow>
           reconstructStructure (pre @ [a]) t w =
             (Inr (), w1\<lparr>stdout := butlast (stdout w1) @
                                     [Warn_skipping_incomplete, Info_complete]\<rparr>))
      \<and> (eligible p \<and> MetaPath p = [] \<longrightarrow>
           fst (reconstructStructure (pre @ [p]) t w) =
             (case fst (moveFile (AssetPath p) (filepath_Join [t, PathName p]) w1) of
                Inl x \<Rightarrow> Inl (E_move_asset x) | Inr u \<Rightarrow> Inr ())
         \<and> files (snd (reconstructStructure (pre @ [p]) t w)) =
             files (snd (moveFile (AssetPath p) (filepath_Join [t, PathName p]) w1))
         \<and> (lookup (files w1) (parse (filepath_Join [t, PathName p] @ ''.meta'')) = None \<longrightarrow>
              lookup (files (snd (reconstructStructure (pre @ [p]) t w)))
                (parse (filepath_Join [t, PathName p] @ ''.meta'')) = None)
         \<and> (fst (reconstructStructure (pre @ [p]) t w) = Inr () \<longrightarrow>
              stdout (snd (reconstructStructure (pre @ [p]) t w)) =
                butlast (stdout w1) @
                  [Info_moving (PathName p), Info_no_meta (PathName p), Info_complete]
            \<and> (lookup (files w1) (parse (AssetPath p)) = Some (File b) \<and>
               parse (AssetPath p) \<noteq> parse (filepath_Join [t, PathName p]) \<longrightarrow>
                 lookup (files (snd (reconstructStructure (pre @ [p]) t w)))
                   (parse (filepath_Join [t, PathName p])) = Some (File b))))
      \<and> (eligible s \<and> MetaPath s \<noteq> [] \<longrightarrow>
           (fst (reconstructStructure (pre @ [s]) t w) = Inr () \<or>
            (\<exists>x. fst (reconstructStructure (pre @ [s]) t w) = Inl (E_move_asset x)) \<or>
            (\<exists>x. fst (reconstructStructure (pre @ [s]) t w) = Inl (E_move_meta x)))
         \<and> (fst (reconstructStructure (pre @ [s]) t w) = Inr () \<longrightarrow>
              stdout (snd (reconstructStructure (pre @ [s]) t w)) =
                butlast (stdout w1) @ [Info_moving (PathName s), Info_complete]
            \<and> (lookup (files w1) (parse (AssetPath s)) = Some (File b) \<and>
               lookup (files w1) (parse (MetaPath s)) = Some (File c) \<and>
               parse (AssetPath s) \<noteq> parse (filepath_Join [t, PathName s]) \<and>
               parse (MetaPath s) \<noteq> parse (AssetPath s) \<and>
               parse (MetaPath s) \<noteq> parse (filepath_Join [t, PathName s]) \<and>
               parse (MetaPath s) \<noteq> parse (filepath_Join [t, PathName s] @ ''.meta'') \<longrightarrow>
                 lookup (files (snd (reconstructStructure (pre @ [s]) t w)))
                   (parse (filepath_Join [t, PathName s])) = Some (File b) \<and>
                 lookup (files (snd (reconstructStructure (pre @ [s]) t w)))
                   (parse (filepath_Join [t, PathName s] @ ''.meta'')) = Some (File c)))))"
proof (intro conjI impI)
  show "fst (reconstructStructure as t w) = fst (reconstructStructure (filter eligible as) t w)"
    using reconstructStructure_filter by blast
  show "files (snd (reconstructStructure as t w)) =
       files (snd (reconstructStructure (filter eligible as) t w))"
    using reconstructStructure_filter by blast
  show "reconstructStructure as t w =
          (Inr (), w\<lparr>stdout := stdout w @ Info_reconstructing t #
                       replicate (length as) Warn_skipping_incomplete @ [Info_complete]\<rparr>)"
    if "list_all (\<lambda>a. \<not> eligible a) as"
    using that by (rule reconstruct_ineligible)
  show "reconstructStructure (bad @ rest) t w = (Inl e, w2)"
    if "reconstructStructure bad t w = (Inl e, w2)"
    using that by (rule reconstruct_abort)
next
  assume run: "reconstructStructure pre t w = (Inr (), w1)"
  show "reconstructStructure (pre @ [a]) t w =
             (Inr (), w1\<lparr>stdout := butlast (stdout w1) @
                                     [Warn_skipping_incomplete, Info_complete]\<rparr>)"
    if "\<not> eligible a"
    using run that by (rule reconstruct_skip)
next
  assume run: "reconstructStructure pre t w = (Inr (), w1)"
    and el: "eligible p \<and> MetaPath p = []"
  then have e: "eligible p" and m: "MetaPath p = []" by simp_all
  note P = reconstruct_payload [OF run e m]
  show "fst (reconstructStructure (pre @ [p]) t w) =
             (case fst (moveFile (AssetPath p) (filepath_Join [t, PathName p]) w1) of
                Inl x \<Rightarrow> Inl (E_move_asset x) | Inr u \<Rightarrow> Inr ())"
    by (rule P(1))
  show "files (snd (reconstructStructure (pre @ [p]) t w)) =
             files (snd (moveFile (AssetPath p) (filepath_Join [t, PathName p]) w1))"
    by (rule P(2))
  show "lookup (files (snd (reconstructStructure (pre @ [p]) t w)))
                (parse (filepath_Join [t, PathName p] @ ''.meta'')) = None"
    if "lookup (files w1) (parse (filepath_Join [t, PathName p] @ ''.meta'')) = None"
    using that by (rule P(3))
  show "stdout (snd (reconstructStructure (pre @ [p]) t w)) =
                butlast (stdout w1) @
                  [Info_moving (PathName p), Info_no_meta (PathName p), Info_complete]"
    if "fst (reconstructStructure (pre @ [p]) t w) = Inr ()"
    using that by (rule P(4))
  show "lookup (files (snd (reconstructStructure (pre @ [p]) t w)))
                   (parse (filepath_Join [t, PathName p])) = Some (File b)"
    if "fst (reconstructStructure (pre @ [p]) t w) = Inr ()"
      and "lookup (files w1) (parse (AssetPath p)) = Some (File b) \<and>
               parse (AssetPath p) \<noteq> parse (filepath_Join [t, PathName p])"
    using P(5) [of b] that by blast
next
  assume run: "reconstructStructure pre t w = (Inr (), w1)"
    and el: "eligible s \<and> MetaPath s \<noteq> []"
  then have e: "eligible s" and m: "MetaPath s \<noteq> []" by simp_all
  note S = reconstruct_sidecar [OF run e m]
  show "fst (reconstructStructure (pre @ [s]) t w) = Inr () \<or>
            (\<exists>x. fst (reconstructStructure (pre @ [s]) t w) = Inl (E_move_asset x)) \<or>
            (\<exists>x. fst (reconstructStructure (pre @ [s]) t w) = Inl (E_move_meta x))"
    by (rule S(1))
  show "stdout (snd (reconstructStructure (pre @ [s]) t w)) =
                butlast (stdout w1) @ [Info_moving (PathName s), Info_complete]"
    if "fst (reconstructStructure (pre @ [s]) t w) = Inr ()"
    using that by (rule S(2))
  assume ok: "fst (reconstructStructure (pre @ [s]) t w) = Inr ()"
    and h: "lookup (files w1) (parse (AssetPath s)) = Some (File b) \<and>
               lookup (files w1) (parse (MetaPath s)) = Some (File c) \<and>
               parse (AssetPath s) \<noteq> parse (filepath_Join [t, PathName s]) \<and>
               parse (MetaPath s) \<noteq> parse (AssetPath s) \<and>
               parse (MetaPath s) \<noteq> parse (filepath_Join [t, PathName s]) \<and>
               parse (MetaPath s) \<noteq> parse (filepath_Join [t, PathName s] @ ''.meta'')"
  from S(3) [OF ok, of b c] h
  show "lookup (files (snd (reconstructStructure (pre @ [s]) t w)))
                   (parse (filepath_Join [t, PathName s])) = Some (File b)"
    and "lookup (files (snd (reconstructStructure (pre @ [s]) t w)))
                   (parse (filepath_Join [t, PathName s] @ ''.meta'')) = Some (File c)"
    by blast+
qed

text \<open>
  A run of the theorem of Claim C6, in the working directory with the files \<open>a\<close>
  and \<open>m\<close>: two records without payload; a record whose payload file is missing,
  followed by another; and after a record without payload, a record without
  payload, a record without sidecar and a record with sidecar.
\<close>

theorem reconstruction_skips_and_relocates_witness:
  "list_all (\<lambda>a. \<not> eligible a) [no_payload, no_payload]
   \<and> reconstructStructure [no_payload, no_payload] ''out'' two_files =
       (Inr (), two_files\<lparr>stdout := stdout two_files @ Info_reconstructing ''out'' #
          replicate (length [no_payload, no_payload]) Warn_skipping_incomplete @ [Info_complete]\<rparr>)
   \<and> reconstructStructure [lost_payload] ''out'' two_files =
       (Inl (E_move_asset (E_open_source ''gone'' ENOENT)),
        snd (reconstructStructure [lost_payload] ''out'' two_files))
   \<and> reconstructStructure ([lost_payload] @ [payload_only]) ''out'' two_files =
       (Inl (E_move_asset (E_open_source ''gone'' ENOENT)),
        snd (reconstructStructure [lost_payload] ''out'' two_files))
   \<and> reconstructStructure [no_payload] ''out'' two_files =
       (Inr (), snd (reconstructStructure [no_payload] ''out'' two_files))
   \<and> \<not> eligible no_payload
   \<and> reconstructStructure ([no_payload] @ [no_payload]) ''out'' two_files =
       (Inr (), (snd (reconstructStructure [no_payload] ''out'' two_files))
          \<lparr>stdout := butlast (stdout (snd (reconstructStructure [no_payload] ''out'' two_files))) @
                      [Warn_skipping_incomplete, Info_complete]\<rparr>)
   \<and> eligible payload_only \<and> MetaPath payload_only = []
   \<and> lookup (files (snd (reconstructStructure [no_payload] ''out'' two_files)))
       (parse (filepath_Join [''out'', PathName payload_only] @ ''.meta'')) = None
   \<and> fst (reconstructStructure ([no_payload] @ [payload_only]) ''out'' two_files) = Inr ()
   \<and> lookup (files (snd (reconstructStructure [no_payload] ''out'' two_files)))
       (parse (AssetPath payload_only)) = Some (File ''xyz'')
   \<and> parse (AssetPath payload_only) \<noteq> parse (filepath_Join [''out'', PathName payload_only])
   \<and> lookup (files (snd (reconstructStructure ([no_payload] @ [payload_only]) ''out'' two_files)))
       (parse (filepath_Join [''out'', PathName payload_only] @ ''.meta'')) = None
   \<and> lookup (files (snd (reconstructStructure ([no_payload] @ [payload_only]) ''out'' two_files)))
       (parse (filepath_Join [''out'', PathName payload_only])) = Some (File ''xyz'')
   \<and> stdout (snd (reconstructStructure ([no_payload] @ [payload_only]) ''out'' two_files)) =
       butlast (stdout (snd (reconstructStructure [no_payload] ''out'' two_files))) @
         [Info_moving (PathName payload_only), Info_no_meta (PathName payload_only), Info_complete]
   \<and> eligible with_sidecar \<and> MetaPath with_sidecar \<noteq> []
   \<and> fst (reconstructStructure ([no_payload] @ [with_sidecar]) ''out'' two_files) = Inr ()
   \<and> lookup (files (snd (reconstructStructure [no_payload] ''out'' two_files)))
       (parse (AssetPath with_sidecar)) = Some (File ''xyz'')
   \<and> lookup (files (snd (reconstructStructure [no_payload] ''out'' two_files)))
       (parse (MetaPath with_sidecar)) = Some (File ''settings'')
   \<and> parse (AssetPath with_sidecar) \<noteq> parse (filepath_Join [''out'', PathName with_sidecar])
   \<and> parse (MetaPath with_sidecar) \<noteq> parse (AssetPath with_sidecar)
   \<and> parse (MetaPath with_sidecar) \<noteq> parse (filepath_Join [''out'', PathName with_sidecar])
   \<and> parse (MetaPath with_sidecar) \<noteq>
       parse (filepath_Join [''out'', PathName with_sidecar] @ ''.meta'')
   \<and> lookup (files (snd (reconstructStructure ([no_payload] @ [with_sidecar]) ''out'' two_files)))
       (parse (filepath_Join [''out'', PathName with_sidecar])) = Some (File ''xyz'')
   \<and> lookup (files (snd (reconstructStructure ([no_payload] @ [with_sidecar]) ''out'' two_files)))
       (parse (filepath_Join [''out'', PathName with_sidecar] @ ''.meta'')) =
         Some (File ''settings'')"
proof -
  let ?W1 = "snd (reconstructStructure [no_payload] ''out'' two_files)"
  let ?W2 = "snd (reconstructStructure [lost_payload] ''out'' two_files)"
  let ?e = "E_move_asset (E_open_source ''gone'' ENOENT)"
  have h0: "list_all (\<lambda>a. \<not> eligible a) [no_payload, no_payload]" by code_simp
  have "fst (reconstructStructure [lost_payload] ''out'' two_files) = Inl ?e" by code_simp
  then have h1: "reconstructStructure [lost_payload] ''out'' two_files = (Inl ?e, ?W2)"
    by (metis prod.collapse)
  have "fst (reconstructStructure [no_payload] ''out'' two_files) = Inr ()" by code_simp
  then have h2: "reconstructStructure [no_payload] ''out'' two_files = (Inr (), ?W1)"
    by (metis prod.collapse)
  have h3: "\<not> eligible no_payload" by code_simp
  have h4: "eligible payload_only \<and> MetaPath payload_only = []" by code_simp
  have h5: "lookup (files ?W1)
       (parse (filepath_Join [''out'', PathName payload_only] @ ''.meta'')) = None" by code_simp
  have h6: "fst (reconstructStructure ([no_payload] @ [payload_only]) ''out'' two_files) = Inr ()"
    by code_simp
  have h7: "lookup (files ?W1) (parse (AssetPath payload_only)) = Some (File ''xyz'')
            \<and> parse (AssetPath payload_only) \<noteq> parse (filepath_Join [''out'', PathName payload_only])"
    by code_simp
  have h8: "eligible with_sidecar \<and> MetaPath with_sidecar \<noteq> []" by code_simp
  have h9: "fst (reconstructStructure ([no_payload] @ [with_sidecar]) ''out'' two_files) = Inr ()"
    by code_simp
  have h10: "lookup (files ?W1) (parse (AssetPath with_sidecar)) = Some (File ''xyz'') \<and>
             lookup (files ?W1) (parse (MetaPath with_sidecar)) = Some (File ''settings'') \<and>
             parse (AssetPath with_sidecar) \<noteq> parse (filepath_Join [''out'', PathName with_sidecar]) \<and>
             parse (MetaPath with_sidecar) \<noteq> parse (AssetPath with_sidecar) \<and>
             parse (MetaPath with_sidecar) \<noteq> parse (filepath_Join [''out'', PathName with_sidecar]) \<and>
             parse (MetaPath with_sidecar) \<noteq>
               parse (filepath_Join [''out'', PathName with_sidecar] @ ''.meta'')"
    by code_simp
  note T1 = reconstruction_skips_and_relocates
    [where as = "[no_payload, no_payload]" and t = "''out''" and w = two_files
       and bad = "[lost_payload]" and e = ?e and ?w2.0 = ?W2 and rest = "[payload_only]"
       and pre = "[no_payload]" and ?w1.0 = ?W1 and a = no_payload
       and p = payload_only and s = with_sidecar and b = "''xyz''" and c = "''settings''"]
  from T1 h0 have c1: "reconstructStructure [no_payload, no_payload] ''out'' two_files =
       (Inr (), two_files\<lparr>stdout := stdout two_files @ Info_reconstructing ''out'' #
          replicate (length [no_payload, no_payload]) Warn_skipping_incomplete @ [Info_complete]\<rparr>)"
    by blast
  from T1 h1 have c2: "reconstructStructure ([lost_payload] @ [payload_only]) ''out'' two_files =
       (Inl ?e, ?W2)" by blast
  from T1 h2 h3 have c3: "reconstructStructure ([no_payload] @ [no_payload]) ''out'' two_files =
       (Inr (), ?W1\<lparr>stdout := butlast (stdout ?W1) @ [Warn_skipping_incomplete, Info_complete]\<rparr>)"
    by blast
  from T1 h2 h4 h5 h6 h7 have c4:
    "lookup (files (snd (reconstructStructure ([no_payload] @ [payload_only]) ''out'' two_files)))
       (parse (filepath_Join [''out'', PathName payload_only] @ ''.meta'')) = None
     \<and> lookup (files (snd (reconstructStructure ([no_payload] @ [payload_only]) ''out'' two_files)))
       (parse (filepath_Join [''out'', PathName payload_only])) = Some (File ''xyz'')
     \<and> stdout (snd (reconstructStructure ([no_payload] @ [payload_only]) ''out'' two_files)) =
       butlast (stdout ?W1) @
         [Info_moving (PathName payload_only), Info_no_meta (PathName payload_only), Info_complete]"
    by blast
  from T1 h2 h8 h9 h10 have c5:
    "lookup (files (snd (reconstructStructure ([no_payload] @ [with_sidecar]) ''out'' two_files)))
       (parse (filepath_Join [''out'', PathName with_sidecar])) = Some (File ''xyz'')
     \<and> lookup (files (snd (reconstructStructure ([no_payload] @ [with_sidecar]) ''out'' two_files)))
       (parse (filepath_Join [''out'', PathName with_sidecar] @ ''.meta'')) =
         Some (File ''settings'')"
    by blast
  from h0 c1 h1 c2 h2 h3 c3 h4 h5 h6 h7 c4 h8 h9 h10 c5 show ?thesis by blast
qed

end
